theory Spec2Isabelle
  imports
    Main
    "HOL-Library.Multiset"
    "HOL-Library.AList"
    "HOL-Library.Char_ord"
    "HOL-Library.List_Lexorder"
begin

section \<open>Strings of the Go standard library\<close>

text \<open>
  A Go string is a sequence of bytes; it is modelled as \<^typ>\<open>string\<close> (a list of 8-bit
  characters). The operator \<open><\<close> of Go on strings compares byte-wise and lexicographically,
  which is the order of \<^typ>\<open>string\<close> given by the two imported library theories.
\<close>

type_synonym line = string

definition newline :: char where
  "newline = CHR 0x0A"

text \<open>\<^verbatim>\<open>strings.HasPrefix\<close>, \<^verbatim>\<open>strings.HasSuffix\<close> and \<^verbatim>\<open>strings.Contains\<close>.\<close>

definition HasPrefix :: "string \<Rightarrow> string \<Rightarrow> bool" where
  "HasPrefix s prefix = (length s \<ge> length prefix \<and> take (length prefix) s = prefix)"

definition HasSuffix :: "string \<Rightarrow> string \<Rightarrow> bool" where
  "HasSuffix s suffix =
     (length s \<ge> length suffix \<and> drop (length s - length suffix) s = suffix)"

fun Contains :: "string \<Rightarrow> string \<Rightarrow> bool" where
  "Contains [] substr = (substr = [])"
| "Contains (c # cs) substr = (HasPrefix (c # cs) substr \<or> Contains cs substr)"

text \<open>
  \<^verbatim>\<open>strings.TrimSpace\<close> removes leading and trailing white space as defined by Unicode.
  On the bytes of the string this removes, at either end, every UTF-8 encoding of a code
  point with the property White_Space: U+0009..U+000D, U+0020, U+0085, U+00A0, U+1680,
  U+2000..U+200A, U+2028, U+2029, U+202F, U+205F and U+3000.
\<close>

definition whiteSpaceRunes :: "string list" where
  "whiteSpaceRunes =
     [[CHR 0x09], [CHR 0x0A], [CHR 0x0B], [CHR 0x0C], [CHR 0x0D], [CHR 0x20],
      [CHR 0xC2, CHR 0x85], [CHR 0xC2, CHR 0xA0],
      [CHR 0xE1, CHR 0x9A, CHR 0x80],
      [CHR 0xE2, CHR 0x80, CHR 0x80], [CHR 0xE2, CHR 0x80, CHR 0x81],
      [CHR 0xE2, CHR 0x80, CHR 0x82], [CHR 0xE2, CHR 0x80, CHR 0x83],
      [CHR 0xE2, CHR 0x80, CHR 0x84], [CHR 0xE2, CHR 0x80, CHR 0x85],
      [CHR 0xE2, CHR 0x80, CHR 0x86], [CHR 0xE2, CHR 0x80, CHR 0x87],
      [CHR 0xE2, CHR 0x80, CHR 0x88], [CHR 0xE2, CHR 0x80, CHR 0x89],
      [CHR 0xE2, CHR 0x80, CHR 0x8A],
      [CHR 0xE2, CHR 0x80, CHR 0xA8], [CHR 0xE2, CHR 0x80, CHR 0xA9],
      [CHR 0xE2, CHR 0x80, CHR 0xAF],
      [CHR 0xE2, CHR 0x81, CHR 0x9F],
      [CHR 0xE3, CHR 0x80, CHR 0x80]]"

fun stripRune :: "string list \<Rightarrow> string \<Rightarrow> string option" where
  "stripRune [] s = None"
| "stripRune (r # rs) s =
     (if r \<noteq> [] \<and> HasPrefix s r then Some (drop (length r) s) else stripRune rs s)"

lemma stripRune_shorter: "stripRune rs s = Some t \<Longrightarrow> length t < length s"
proof (induction rs)
  case Nil
  then show ?case by simp
next
  case (Cons r rs)
  show ?case
  proof (cases "r \<noteq> [] \<and> HasPrefix s r")
    case True
    then have "0 < length r" "length r \<le> length s"
      by (simp_all add: HasPrefix_def)
    moreover have "t = drop (length r) s"
      using Cons.prems True by simp
    ultimately show ?thesis by (cases r) auto
  next
    case False
    then have "stripRune rs s = Some t"
      using Cons.prems by (simp split: if_splits)
    then show ?thesis by (rule Cons.IH)
  qed
qed

function trimLeftRunes :: "string list \<Rightarrow> string \<Rightarrow> string" where
  "trimLeftRunes rs s = (case stripRune rs s of None \<Rightarrow> s | Some t \<Rightarrow> trimLeftRunes rs t)"
  by pat_completeness auto
termination
  by (relation "measure (\<lambda>(rs, s). length s)") (auto dest: stripRune_shorter)

declare trimLeftRunes.simps [simp del]

definition TrimSpace :: "string \<Rightarrow> string" where
  "TrimSpace s =
     rev (trimLeftRunes (map rev whiteSpaceRunes) (rev (trimLeftRunes whiteSpaceRunes s)))"

text \<open>
  \<^verbatim>\<open>strings.Split(s, "\n")\<close> and \<^verbatim>\<open>strings.Join(elems, "\n")\<close>. The program splits
  and joins on the one-byte separator \<^verbatim>\<open>"\n"\<close> only, so the separator is a character.
\<close>

fun Split :: "string \<Rightarrow> char \<Rightarrow> string list" where
  "Split [] sep = [[]]"
| "Split (c # cs) sep =
     (if c = sep then [] # Split cs sep
      else (case Split cs sep of [] \<Rightarrow> [[c]] | l # ls \<Rightarrow> (c # l) # ls))"

fun Join :: "string list \<Rightarrow> char \<Rightarrow> string" where
  "Join [] sep = []"
| "Join [e] sep = e"
| "Join (e # e' # es) sep = e @ sep # Join (e' # es) sep"

section \<open>Line classifier\<close>

text \<open>\<^verbatim>\<open>const importBlockStart = "import ("\<close>\<close>

definition importBlockStart :: string where
  "importBlockStart = ''import (''"

text \<open>
  \<^verbatim>\<open>func isCommentOrEmpty(line string) bool\<close>: the line is inspected as it is given; the
  function itself does not trim it.
\<close>

definition isCommentOrEmpty :: "line \<Rightarrow> bool" where
  "isCommentOrEmpty line = (line = [] \<or> HasPrefix line ''//'' \<or> HasPrefix line ''/*'')"

text \<open>\<^verbatim>\<open>func isBoilerplateCode(line string) bool\<close>: a \<^verbatim>\<open>switch\<close> on the trimmed line.\<close>

definition isBoilerplateCode :: "line \<Rightarrow> bool" where
  "isBoilerplateCode line =
     (if line = [] then True
      else if HasPrefix line ''//'' \<or> HasPrefix line ''/*'' then True
      else if HasPrefix line ''package '' then True
      else if HasPrefix line ''import '' then True
      else if line = importBlockStart then True
      else False)"


section \<open>Slices with checked access\<close>

text \<open>
  Go integers index the slice of lines. An index expression \<^verbatim>\<open>lines[i]\<close> outside
  \<open>0 \<le> i < len(lines)\<close> panics at run time; \<open>None\<close> is that panic, and every function
  that reads a line returns an option.
\<close>

definition lineAt :: "line list \<Rightarrow> int \<Rightarrow> line option" where
  "lineAt lines i = (if 0 \<le> i \<and> i < int (length lines) then Some (lines ! nat i) else None)"

definition quote :: string where
  "quote = [CHR 0x22]"

section \<open>Import blocks and real code\<close>

text \<open>
  \<^verbatim>\<open>func isEndOfImportBlock(lines []string, idx int) bool\<close>: the loop runs
  \<^verbatim>\<open>innerIdx\<close> from \<^verbatim>\<open>idx - 1\<close> down to 0.
\<close>

function isEndOfImportBlockLoop :: "line list \<Rightarrow> int \<Rightarrow> bool option" where
  "isEndOfImportBlockLoop lines innerIdx =
     (if innerIdx \<ge> 0 then
        (case lineAt lines innerIdx of
           None \<Rightarrow> None
         | Some l \<Rightarrow>
             (let prevLine = TrimSpace l in
              if prevLine = [] \<or> HasPrefix prevLine ''//''
                then isEndOfImportBlockLoop lines (innerIdx - 1)
              else if Contains prevLine quote
                then isEndOfImportBlockLoop lines (innerIdx - 1)
              else if prevLine = importBlockStart then Some True
              else if HasPrefix prevLine ''package '' then Some False
              else Some False))
      else Some False)"
  by pat_completeness auto
termination
  by (relation "measure (\<lambda>(lines, innerIdx). nat (innerIdx + 1))") auto

declare isEndOfImportBlockLoop.simps [simp del]

definition isEndOfImportBlock :: "line list \<Rightarrow> int \<Rightarrow> bool option" where
  "isEndOfImportBlock lines idx = isEndOfImportBlockLoop lines (idx - 1)"

text \<open>\<^verbatim>\<open>func isInImportBlock(lines []string, idx int) bool\<close>: the same scan.\<close>

function isInImportBlockLoop :: "line list \<Rightarrow> int \<Rightarrow> bool option" where
  "isInImportBlockLoop lines innerIdx =
     (if innerIdx \<ge> 0 then
        (case lineAt lines innerIdx of
           None \<Rightarrow> None
         | Some l \<Rightarrow>
             (let prevLine = TrimSpace l in
              if prevLine = [] \<or> HasPrefix prevLine ''//''
                then isInImportBlockLoop lines (innerIdx - 1)
              else if Contains prevLine quote
                then isInImportBlockLoop lines (innerIdx - 1)
              else if prevLine = importBlockStart then Some True
              else if HasPrefix prevLine ''package '' then Some False
              else Some False))
      else Some False)"
  by pat_completeness auto
termination
  by (relation "measure (\<lambda>(lines, innerIdx). nat (innerIdx + 1))") auto

declare isInImportBlockLoop.simps [simp del]

definition isInImportBlock :: "line list \<Rightarrow> int \<Rightarrow> bool option" where
  "isInImportBlock lines idx = isInImportBlockLoop lines (idx - 1)"

text \<open>\<^verbatim>\<open>func handleSpecialCases(lines []string, idx int, line string) bool\<close>\<close>

definition handleSpecialCases :: "line list \<Rightarrow> int \<Rightarrow> line \<Rightarrow> bool option" where
  "handleSpecialCases lines idx line =
     (if line = '')'' then
        (case isEndOfImportBlock lines idx of
           None \<Rightarrow> None
         | Some b \<Rightarrow> if b then Some False else Some True)
      else if Contains line quote then
        (case isInImportBlock lines idx of
           None \<Rightarrow> None
         | Some b \<Rightarrow> if b then Some False else Some True)
      else Some True)"

text \<open>\<^verbatim>\<open>func hasActualCodeAt(lines []string, idx int) bool\<close>\<close>

definition hasActualCodeAt :: "line list \<Rightarrow> int \<Rightarrow> bool option" where
  "hasActualCodeAt lines idx =
     (case lineAt lines idx of
        None \<Rightarrow> None
      | Some l \<Rightarrow>
          (let line = TrimSpace l in
           if isBoilerplateCode line then Some False
           else handleSpecialCases lines idx line))"

section \<open>Boundaries of a function block\<close>

text \<open>
  \<^verbatim>\<open>func findCommentStart(lines []string, functionStartLine int) int\<close>: the variable
  \<^verbatim>\<open>commentStart\<close> starts at \<^verbatim>\<open>functionStartLine\<close> and the loop decrements it.
\<close>

function findCommentStart :: "line list \<Rightarrow> int \<Rightarrow> int option" where
  "findCommentStart lines commentStart =
     (if commentStart > 0 then
        (case lineAt lines (commentStart - 1) of
           None \<Rightarrow> None
         | Some l \<Rightarrow>
             (let prevLine = TrimSpace l in
              if HasPrefix prevLine ''//'' \<or> HasPrefix prevLine ''/*'' \<or> prevLine = []
                then findCommentStart lines (commentStart - 1)
              else Some commentStart))
      else Some commentStart)"
  by pat_completeness auto
termination
  by (relation "measure (\<lambda>(lines, commentStart). nat commentStart)") auto

declare findCommentStart.simps [simp del]

text \<open>\<^verbatim>\<open>func findCommentEnd(lines []string, functionEndLine int) int\<close>\<close>

function findCommentEnd :: "line list \<Rightarrow> int \<Rightarrow> int option" where
  "findCommentEnd lines commentEnd =
     (if commentEnd < int (length lines) - 1 then
        (case lineAt lines (commentEnd + 1) of
           None \<Rightarrow> None
         | Some l \<Rightarrow>
             (let nextLine = TrimSpace l in
              if nextLine = [] then findCommentEnd lines (commentEnd + 1)
              else Some commentEnd))
      else Some commentEnd)"
  by pat_completeness auto
termination
  by (relation "measure (\<lambda>(lines, commentEnd). nat (int (length lines) - 1 - commentEnd))")
    auto

declare findCommentEnd.simps [simp del]

text \<open>
  \<^verbatim>\<open>func isCommentBeforeTestFunction(lineIndex int, lines []string, testFuncStartLine int) bool\<close>
  with its two loops. \<open>onlyEmptyBetween\<close> is the loop over the lines between the comment
  and the function (\<open>Some False\<close> where the source returns false from inside the loop);
  \<open>actualCodeBefore\<close> is the backward loop over \<^verbatim>\<open>hasActualCodeAt\<close>.
\<close>

function onlyEmptyBetween :: "line list \<Rightarrow> int \<Rightarrow> int \<Rightarrow> bool option" where
  "onlyEmptyBetween lines i testStartIdx =
     (if i < testStartIdx then
        (case lineAt lines i of
           None \<Rightarrow> None
         | Some l \<Rightarrow>
             if TrimSpace l \<noteq> [] then Some False
             else onlyEmptyBetween lines (i + 1) testStartIdx)
      else Some True)"
  by pat_completeness auto
termination
  by (relation "measure (\<lambda>(lines, i, testStartIdx). nat (testStartIdx - i))") auto

declare onlyEmptyBetween.simps [simp del]

function actualCodeBefore :: "line list \<Rightarrow> int \<Rightarrow> bool option" where
  "actualCodeBefore lines idx =
     (if idx \<ge> 0 then
        (case hasActualCodeAt lines idx of
           None \<Rightarrow> None
         | Some b \<Rightarrow> if b then Some True else actualCodeBefore lines (idx - 1))
      else Some False)"
  by pat_completeness auto
termination
  by (relation "measure (\<lambda>(lines, idx). nat (idx + 1))") auto

declare actualCodeBefore.simps [simp del]

definition isCommentBeforeTestFunction :: "int \<Rightarrow> line list \<Rightarrow> int \<Rightarrow> bool option" where
  "isCommentBeforeTestFunction lineIndex lines testFuncStartLine =
     (if testFuncStartLine \<le> 0 then Some False
      else
        (let testStartIdx = testFuncStartLine - 1 in
         if lineIndex \<ge> testStartIdx then Some False
         else
           (case lineAt lines lineIndex of
              None \<Rightarrow> None
            | Some l \<Rightarrow>
                (let trimmed = TrimSpace l in
                 if \<not> isCommentOrEmpty trimmed then Some False
                 else if trimmed = [] then Some False
                 else if lineIndex + 1 = testStartIdx then Some True
                 else
                   (case onlyEmptyBetween lines (lineIndex + 1) testStartIdx of
                      None \<Rightarrow> None
                    | Some onlyEmpty \<Rightarrow>
                        if \<not> onlyEmpty then Some False
                        else
                          (case actualCodeBefore lines (lineIndex - 1) of
                             None \<Rightarrow> None
                           | Some code \<Rightarrow> if code then Some False else Some True))))))"

section \<open>Extractor\<close>

text \<open>
  \<^verbatim>\<open>type TestFunction struct { Name string; Lines []string }\<close> and
  \<^verbatim>\<open>type funcPos struct { name string; startLine int; endLine int }\<close>.
\<close>

record TestFunction =
  Name :: string
  Lines :: "line list"

record funcPos =
  name :: string
  startLine :: int
  endLine :: int

text \<open>
  \<^verbatim>\<open>testFuncPos map[string][2]int\<close> maps a function name to its 1-based start and end
  line. Go iterates over a map in an unspecified order; the map is modelled as an
  association list whose order is the order of that iteration, so that every statement
  about all association lists covers every iteration order. The keys of a Go map are
  distinct.
\<close>

type_synonym positions = "(string \<times> int \<times> int) list"

text \<open>
  \<^verbatim>\<open>func createSortedFuncPositions(testFuncPos map[string][2]int) []funcPos\<close>. The two
  nested loops exchange \<^verbatim>\<open>sortedFuncs[i]\<close> with every later element that starts on a
  smaller line; \<open>exchangeLoop x ys\<close> is the inner loop with \<open>x\<close> in slot \<open>i\<close> and \<open>ys\<close>
  the slots behind it, returning the final content of slot \<open>i\<close> and of the slots behind.
\<close>

fun exchangeLoop :: "funcPos \<Rightarrow> funcPos list \<Rightarrow> funcPos \<times> funcPos list" where
  "exchangeLoop x [] = (x, [])"
| "exchangeLoop x (y # ys) =
     (if startLine x > startLine y
      then (case exchangeLoop y ys of (m, rest) \<Rightarrow> (m, x # rest))
      else (case exchangeLoop x ys of (m, rest) \<Rightarrow> (m, y # rest)))"

lemma length_exchangeLoop: "exchangeLoop x ys = (m, rest) \<Longrightarrow> length rest = length ys"
  by (induction ys arbitrary: x m rest) (auto split: prod.splits if_splits)

function sortByStartLine :: "funcPos list \<Rightarrow> funcPos list" where
  "sortByStartLine [] = []"
| "sortByStartLine (x # xs) =
     (case exchangeLoop x xs of (m, rest) \<Rightarrow> m # sortByStartLine rest)"
  by pat_completeness auto
termination
  by (relation "measure length") (auto dest: length_exchangeLoop [OF sym])

definition createSortedFuncPositions :: "positions \<Rightarrow> funcPos list" where
  "createSortedFuncPositions testFuncPos =
     sortByStartLine
       (map (\<lambda>(n, s, e). \<lparr>name = n, startLine = s - 1, endLine = e - 1\<rparr>) testFuncPos)"

text \<open>
  \<^verbatim>\<open>func markProcessedLines(lines []string, sortedFuncs []funcPos) map[int]bool\<close>. The
  map \<^verbatim>\<open>processedLines\<close> only ever receives \<^verbatim>\<open>true\<close>, and reading a missing key gives
  \<^verbatim>\<open>false\<close>: it is a function from indices to truth values that starts everywhere false.
\<close>

function markLoop :: "line list \<Rightarrow> int \<Rightarrow> int \<Rightarrow> (int \<Rightarrow> bool) \<Rightarrow> (int \<Rightarrow> bool)" where
  "markLoop lines i commentEnd processedLines =
     (if i \<le> commentEnd \<and> i < int (length lines)
      then markLoop lines (i + 1) commentEnd (processedLines(i := True))
      else processedLines)"
  by pat_completeness auto
termination
  by (relation "measure (\<lambda>(lines, i, commentEnd, p). nat (commentEnd + 1 - i))") auto

declare markLoop.simps [simp del]

fun markFuncs :: "line list \<Rightarrow> funcPos list \<Rightarrow> (int \<Rightarrow> bool) \<Rightarrow> (int \<Rightarrow> bool) option" where
  "markFuncs lines [] processedLines = Some processedLines"
| "markFuncs lines (funcInfo # rest) processedLines =
     (if startLine funcInfo \<ge> 0 \<and> startLine funcInfo < int (length lines)
         \<and> endLine funcInfo \<ge> 0 \<and> endLine funcInfo < int (length lines)
      then
        (case findCommentStart lines (startLine funcInfo) of
           None \<Rightarrow> None
         | Some commentStart \<Rightarrow>
             (case findCommentEnd lines (endLine funcInfo) of
                None \<Rightarrow> None
              | Some commentEnd \<Rightarrow>
                  markFuncs lines rest (markLoop lines commentStart commentEnd processedLines)))
      else markFuncs lines rest processedLines)"

definition markProcessedLines :: "line list \<Rightarrow> funcPos list \<Rightarrow> (int \<Rightarrow> bool) option" where
  "markProcessedLines lines sortedFuncs = markFuncs lines sortedFuncs (\<lambda>i. False)"

text \<open>
  \<^verbatim>\<open>func extractTestFunctionWithComments(lines, funcName, testFuncPos) (TestFunction, int)\<close>.
  Reading a missing key of the map gives the zero value \<^verbatim>\<open>[2]int{0, 0}\<close>.
\<close>

function appendLines :: "line list \<Rightarrow> int \<Rightarrow> int \<Rightarrow> line list \<Rightarrow> line list option" where
  "appendLines lines i endLine' funcLines =
     (if i \<le> endLine' then
        (case lineAt lines i of
           None \<Rightarrow> None
         | Some l \<Rightarrow> appendLines lines (i + 1) endLine' (funcLines @ [l]))
      else Some funcLines)"
  by pat_completeness auto
termination
  by (relation "measure (\<lambda>(lines, i, e, acc). nat (e + 1 - i))") auto

declare appendLines.simps [simp del]

definition extractTestFunctionWithComments ::
  "line list \<Rightarrow> string \<Rightarrow> positions \<Rightarrow> (TestFunction \<times> int) option" where
  "extractTestFunctionWithComments lines funcName testFuncPos =
     (let pos = (case map_of testFuncPos funcName of None \<Rightarrow> (0, 0) | Some p \<Rightarrow> p);
          startLine' = fst pos - 1;
          endLine' = snd pos - 1
      in case findCommentStart lines startLine' of
           None \<Rightarrow> None
         | Some commentStart \<Rightarrow>
             (case appendLines lines commentStart endLine' [] of
                None \<Rightarrow> None
              | Some funcLines \<Rightarrow> Some (\<lparr>Name = funcName, Lines = funcLines\<rparr>, endLine')))"

text \<open>\<^verbatim>\<open>func extractAllTestFunctions(lines, sortedFuncs, testFuncPos) []TestFunction\<close>\<close>

fun extractFuncs ::
  "line list \<Rightarrow> funcPos list \<Rightarrow> positions \<Rightarrow> TestFunction list \<Rightarrow> TestFunction list option"
  where
  "extractFuncs lines [] testFuncPos testFuncs = Some testFuncs"
| "extractFuncs lines (funcInfo # rest) testFuncPos testFuncs =
     (if startLine funcInfo \<ge> 0 \<and> startLine funcInfo < int (length lines) then
        (case extractTestFunctionWithComments lines (name funcInfo) testFuncPos of
           None \<Rightarrow> None
         | Some (testFunc, e) \<Rightarrow> extractFuncs lines rest testFuncPos (testFuncs @ [testFunc]))
      else extractFuncs lines rest testFuncPos testFuncs)"

definition extractAllTestFunctions ::
  "line list \<Rightarrow> funcPos list \<Rightarrow> positions \<Rightarrow> TestFunction list option" where
  "extractAllTestFunctions lines sortedFuncs testFuncPos =
     extractFuncs lines sortedFuncs testFuncPos []"

text \<open>\<^verbatim>\<open>func collectNonTestLines(lines []string, processedLines map[int]bool) []string\<close>\<close>

definition collectNonTestLines :: "line list \<Rightarrow> (int \<Rightarrow> bool) \<Rightarrow> line list" where
  "collectNonTestLines lines processedLines =
     (let nonTestLines =
            map snd (filter (\<lambda>(i, line). \<not> processedLines (int i))
                            (zip [0..<length lines] lines))
      in if length nonTestLines > 0 then nonTestLines @ [[]] else nonTestLines)"

text \<open>\<^verbatim>\<open>func separateTestAndNonTestContent(lines, testFuncPos) ([]TestFunction, []string)\<close>\<close>

definition separateTestAndNonTestContent ::
  "line list \<Rightarrow> positions \<Rightarrow> (TestFunction list \<times> line list) option" where
  "separateTestAndNonTestContent lines testFuncPos =
     (let sortedFuncs = createSortedFuncPositions testFuncPos in
      case markProcessedLines lines sortedFuncs of
        None \<Rightarrow> None
      | Some processedLines \<Rightarrow>
          (case extractAllTestFunctions lines sortedFuncs testFuncPos of
             None \<Rightarrow> None
           | Some testFuncs \<Rightarrow> Some (testFuncs, collectNonTestLines lines processedLines)))"

section \<open>Assembler\<close>

text \<open>
  \<^verbatim>\<open>sort.Slice(testFuncs, func(i, j int) bool { return testFuncs[i].Name < testFuncs[j].Name })\<close>
  is the insertion sort of the library: on slices of fewer than twelve elements
  \<^verbatim>\<open>sort.Slice\<close> is itself an insertion sort, and on longer ones it may order elements of
  equal name differently, which its documentation leaves open.
\<close>

definition sortSlice :: "TestFunction list \<Rightarrow> TestFunction list" where
  "sortSlice testFuncs = sort_key Name testFuncs"

text \<open>The two trimming loops of \<^verbatim>\<open>BuildOutputContent\<close>.\<close>

function dropTrailingEmpty :: "line list \<Rightarrow> line list" where
  "dropTrailingEmpty outputLines =
     (if length outputLines > 0 \<and> TrimSpace (last outputLines) = []
      then dropTrailingEmpty (butlast outputLines)
      else outputLines)"
  by pat_completeness auto
termination
  by (relation "measure length") auto

declare dropTrailingEmpty.simps [simp del]

fun dropLeadingEmpty :: "line list \<Rightarrow> line list" where
  "dropLeadingEmpty [] = []"
| "dropLeadingEmpty (l # funcLines) =
     (if TrimSpace l = [] then dropLeadingEmpty funcLines else l # funcLines)"

text \<open>The loop \<^verbatim>\<open>for i, testFunc := range testFuncs\<close>.\<close>

fun appendFuncs :: "nat \<Rightarrow> TestFunction list \<Rightarrow> line list \<Rightarrow> line list" where
  "appendFuncs i [] outputLines = outputLines"
| "appendFuncs i (testFunc # rest) outputLines =
     appendFuncs (i + 1) rest
       ((if i > 0 then outputLines @ [[]] else outputLines) @ dropLeadingEmpty (Lines testFunc))"

text \<open>
  \<open>outputLinesOf\<close> is the slice \<^verbatim>\<open>outputLines\<close> when the loops are done;
  \<^verbatim>\<open>func BuildOutputContent(testFuncs []TestFunction, nonTestLines []string) string\<close>
  joins it and ensures the final newline.
\<close>

definition outputLinesOf :: "TestFunction list \<Rightarrow> line list \<Rightarrow> line list" where
  "outputLinesOf testFuncs nonTestLines =
     (let sorted = sortSlice testFuncs;
          outputLines = nonTestLines;
          outputLines =
            (if length sorted > 0 \<and> length nonTestLines > 0
             then dropTrailingEmpty outputLines @ [[]]
             else outputLines)
      in appendFuncs 0 sorted outputLines)"

definition BuildOutputContent :: "TestFunction list \<Rightarrow> line list \<Rightarrow> string" where
  "BuildOutputContent testFuncs nonTestLines =
     (let output = Join (outputLinesOf testFuncs nonTestLines) newline
      in if \<not> HasSuffix output [newline] then output @ [newline] else output)"


section \<open>Files, the parser and Exec\<close>

text \<open>
  The syntax parser is outside the program. Of its result \<^verbatim>\<open>*ast.File\<close> the program
  reads the list \<^verbatim>\<open>file.Decls\<close> only, and of a function declaration its name and the
  lines of \<^verbatim>\<open>fset.Position(function.Pos())\<close> and \<^verbatim>\<open>fset.Position(function.End())\<close>.
\<close>

datatype decl = FuncDecl string int int | GenDecl

datatype goerror = PathError string | SyntaxError string | Wrapped string goerror

type_synonym parser = "string \<Rightarrow> goerror + decl list"

text \<open>
  \<^verbatim>\<open>func buildTestFunctionPositions(file *ast.File, fset *token.FileSet) map[string][2]int\<close>:
  an assignment to a key that the map already holds replaces its value.
\<close>

definition buildTestFunctionPositions :: "decl list \<Rightarrow> positions" where
  "buildTestFunctionPositions file =
     fold (\<lambda>d testFuncPos.
             case d of
               FuncDecl n start end' \<Rightarrow>
                 if \<not> HasPrefix n ''Test'' then testFuncPos
                 else AList.update n (start, end') testFuncPos
             | GenDecl \<Rightarrow> testFuncPos)
          file []"

text \<open>\<^verbatim>\<open>func ExtractTestFunctions(lines, file, fset) ([]TestFunction, []string)\<close>\<close>

definition ExtractTestFunctions ::
  "line list \<Rightarrow> decl list \<Rightarrow> (TestFunction list \<times> line list) option" where
  "ExtractTestFunctions lines file =
     separateTestAndNonTestContent lines (buildTestFunctionPositions file)"

text \<open>
  The file system is a state: the content of every existing file, and the paths that
  \<^verbatim>\<open>os.WriteFile\<close> can create or overwrite.
\<close>

record world =
  files :: "string \<rightharpoonup> string"
  writable :: "string \<Rightarrow> bool"

definition ReadFile :: "world \<Rightarrow> string \<Rightarrow> goerror + string" where
  "ReadFile w path = (case files w path of None \<Rightarrow> Inl (PathError path) | Some c \<Rightarrow> Inr c)"

definition WriteFile :: "world \<Rightarrow> string \<Rightarrow> string \<Rightarrow> goerror + world" where
  "WriteFile w path data =
     (if writable w path then Inr (w\<lparr>files := (files w)(path \<mapsto> data)\<rparr>)
      else Inl (PathError path))"

text \<open>
  \<^verbatim>\<open>parser.ParseFile(fset, filePath, nil, parser.ParseComments)\<close>: with the source
  argument \<^verbatim>\<open>nil\<close> the parser reads the file itself.
\<close>

definition ParseFile :: "parser \<Rightarrow> world \<Rightarrow> string \<Rightarrow> goerror + decl list" where
  "ParseFile parse w filePath =
     (case ReadFile w filePath of Inl err \<Rightarrow> Inl err | Inr src \<Rightarrow> parse src)"

text \<open>
  \<^verbatim>\<open>func ParseGoFile(filePath string) ([]string, *ast.File, *token.FileSet, error)\<close>;
  \<^verbatim>\<open>fmt.Errorf("...: %w", err)\<close> wraps the error it is given.
\<close>

definition ParseGoFile :: "parser \<Rightarrow> world \<Rightarrow> string \<Rightarrow> goerror + (line list \<times> decl list)" where
  "ParseGoFile parse w filePath =
     (case ReadFile w filePath of
        Inl err \<Rightarrow> Inl (Wrapped ''failed to read input file'' err)
      | Inr content \<Rightarrow>
          (case ParseFile parse w filePath of
             Inl err \<Rightarrow> Inl (Wrapped ''failed to parse Go file'' err)
           | Inr file \<Rightarrow> Inr (Split content newline, file)))"

text \<open>
  \<^verbatim>\<open>func Exec(pathInput, pathOutput string) error\<close> returns an error or \<^verbatim>\<open>nil\<close>, or
  panics; it leaves the file system in a new state.
\<close>

datatype outcome = Panic | Returned "goerror option"

definition Exec :: "parser \<Rightarrow> world \<Rightarrow> string \<Rightarrow> string \<Rightarrow> outcome \<times> world" where
  "Exec parse w pathInput pathOutput =
     (case ParseGoFile parse w pathInput of
        Inl err \<Rightarrow> (Returned (Some err), w)
      | Inr (lines, file) \<Rightarrow>
          (case ExtractTestFunctions lines file of
             None \<Rightarrow> (Panic, w)
           | Some (testFuncs, nonTestLines) \<Rightarrow>
               (let output = BuildOutputContent testFuncs nonTestLines in
                case WriteFile w pathOutput output of
                  Inl err \<Rightarrow> (Returned (Some (Wrapped ''failed to write output file'' err)), w)
                | Inr w' \<Rightarrow> (Returned None, w'))))"

text \<open>\<^verbatim>\<open>errors.Unwrap\<close>: the error inside a wrapped one.\<close>

fun Unwrap :: "goerror \<Rightarrow> goerror option" where
  "Unwrap (Wrapped msg err) = Some err"
| "Unwrap err = None"

section \<open>Notions of the specification and of the proofs\<close>

text \<open>
  Blocks laid out one after the other with exactly one empty line between two of them.
\<close>

fun separatedBlocks :: "line list list \<Rightarrow> line list" where
  "separatedBlocks [] = []"
| "separatedBlocks [b] = b"
| "separatedBlocks (b # b' # bs) = b @ [[]] @ separatedBlocks (b' # bs)"

text \<open>
  The trailing-newline normalization of the specification: a text that does not end
  with a newline receives one, any other text is left as it is.
\<close>

definition withFinalNewline :: "string \<Rightarrow> string" where
  "withFinalNewline s = (if HasSuffix s [newline] then s else s @ [newline])"

text \<open>
  A blank line is one that \<^verbatim>\<open>strings.TrimSpace\<close> empties; a blank-or-comment line is
  one that the backward walk of \<^verbatim>\<open>findCommentStart\<close> passes.
\<close>

definition blankLine :: "line \<Rightarrow> bool" where
  "blankLine l = (TrimSpace l = [])"

definition blankOrComment :: "line \<Rightarrow> bool" where
  "blankOrComment l =
     (HasPrefix (TrimSpace l) ''//'' \<or> HasPrefix (TrimSpace l) ''/*'' \<or> TrimSpace l = [])"

text \<open>
  Positions as the parser's contract gives them: 1-based, the start not after the end,
  both inside the file.
\<close>

definition validPositions :: "line list \<Rightarrow> positions \<Rightarrow> bool" where
  "validPositions lines testFuncPos =
     list_all (\<lambda>(n, s, e). 1 \<le> s \<and> s \<le> e \<and> e \<le> int (length lines)) testFuncPos"

text \<open>
  The two boundaries of the specification in closed form: the leading boundary of a
  declaration that starts at index \<open>s\<close> lies behind the longest run of blank-or-comment
  lines that ends just above \<open>s\<close>, the trailing boundary of a declaration that ends at
  index \<open>e\<close> is the end of the longest run of blank lines that starts just below \<open>e\<close>.
\<close>

definition leadingBoundary :: "line list \<Rightarrow> int \<Rightarrow> int" where
  "leadingBoundary lines s =
     s - int (length (takeWhile blankOrComment (rev (take (nat s) lines))))"

definition trailingBoundary :: "line list \<Rightarrow> int \<Rightarrow> int" where
  "trailingBoundary lines e =
     e + int (length (takeWhile blankLine (drop (nat (e + 1)) lines)))"

text \<open>The guard of \<^verbatim>\<open>markProcessedLines\<close>, and the block of a declaration.\<close>

definition inBounds :: "line list \<Rightarrow> funcPos \<Rightarrow> bool" where
  "inBounds lines f =
     (startLine f \<ge> 0 \<and> startLine f < int (length lines)
      \<and> endLine f \<ge> 0 \<and> endLine f < int (length lines))"

definition blockOf :: "line list \<Rightarrow> funcPos \<Rightarrow> TestFunction" where
  "blockOf lines f =
     \<lparr>Name = name f,
      Lines = drop (nat (leadingBoundary lines (startLine f))) (take (nat (endLine f + 1)) lines)\<rparr>"


definition visibleIn :: "line list \<Rightarrow> funcPos \<Rightarrow> int \<Rightarrow> bool" where
  "visibleIn lines f i =
     (case findCommentStart lines (startLine f) of
        None \<Rightarrow> False
      | Some commentStart \<Rightarrow> commentStart \<le> i \<and> i \<le> endLine f)"

text \<open>A test function: a function declaration whose name begins with \<^verbatim>\<open>Test\<close>.\<close>

definition isTestDecl :: "decl \<Rightarrow> bool" where
  "isTestDecl d = (case d of FuncDecl n start end' \<Rightarrow> HasPrefix n ''Test'' | GenDecl \<Rightarrow> False)"

text \<open>
  The transformation of the specification, \<open>(lines, declarations) \<rightarrow> output text\<close>: what
  \<^verbatim>\<open>Exec\<close> computes between reading and writing.
\<close>

definition reorderContent :: "string \<Rightarrow> positions \<Rightarrow> string option" where
  "reorderContent content testFuncPos =
     (case separateTestAndNonTestContent (Split content newline) testFuncPos of
        None \<Rightarrow> None
      | Some (testFuncs, nonTestLines) \<Rightarrow> Some (BuildOutputContent testFuncs nonTestLines))"

text \<open>
  The lines of the output on which the assembler writes the declarations. A block is
  emitted behind \<open>offset\<close> lines of output, without its leading blank lines, and the
  declaration of the function is the last part of its block, as long as it was in the
  input; the next block follows one separator line later. \<open>outputPositions\<close> gives every
  function the 1-based lines that its declaration occupies in the output of a run on
  \<open>lines\<close> and \<open>testFuncPos\<close>. It is computed from that run alone and says nothing about
  the parser: that the parser, run on the output, reports these lines is a hypothesis
  wherever a second run is considered.
\<close>

fun relocate :: "positions \<Rightarrow> int \<Rightarrow> TestFunction list \<Rightarrow> positions" where
  "relocate testFuncPos offset [] = []"
| "relocate testFuncPos offset (testFunc # rest) =
     (let pos = (case map_of testFuncPos (Name testFunc) of None \<Rightarrow> (0, 0) | Some p \<Rightarrow> p);
          lastLine = offset + int (length (dropLeadingEmpty (Lines testFunc)))
      in (Name testFunc, lastLine - (snd pos - fst pos), lastLine)
           # relocate testFuncPos (lastLine + 1) rest)"

definition outputPositions :: "line list \<Rightarrow> positions \<Rightarrow> positions" where
  "outputPositions lines testFuncPos =
     (case separateTestAndNonTestContent lines testFuncPos of
        None \<Rightarrow> []
      | Some (testFuncs, nonTestLines) \<Rightarrow>
          relocate testFuncPos
            (if nonTestLines = [] then 0 else int (length (dropTrailingEmpty nonTestLines)) + 1)
            (sortSlice testFuncs))"

text \<open>
  Declarations are code: the first line of a declaration is not blank, and its last line
  is neither blank nor the beginning of a comment.
\<close>

definition declarationsAreCode :: "line list \<Rightarrow> positions \<Rightarrow> bool" where
  "declarationsAreCode lines testFuncPos =
     list_all (\<lambda>(n, s, e). \<not> blankLine (lines ! nat (s - 1))
                           \<and> \<not> blankOrComment (lines ! nat (e - 1))) testFuncPos"

text \<open>
  No comment is left without a consistent owner: the remainder, if there is one, ends
  (before its trailing blank lines) with a line of code and not with a comment, which a
  second run would hand over to the first function behind it.
\<close>

definition remainderEndsInCode :: "line list \<Rightarrow> positions \<Rightarrow> bool" where
  "remainderEndsInCode lines testFuncPos =
     (case separateTestAndNonTestContent lines testFuncPos of
        None \<Rightarrow> False
      | Some (testFuncs, nonTestLines) \<Rightarrow>
          nonTestLines = [] \<or>
          (dropTrailingEmpty nonTestLines \<noteq> []
           \<and> \<not> blankOrComment (last (dropTrailingEmpty nonTestLines))))"

text \<open>
  The layout of an output: a header, and blocks that consist of leading comment lines
  and declaration lines, each block followed by one empty line.
\<close>

type_synonym block = "string \<times> line list \<times> line list"

definition blocksLines :: "block list \<Rightarrow> line list" where
  "blocksLines bs = concat (map (\<lambda>(n, C, D). C @ D @ [[]]) bs)"

fun layoutPos :: "int \<Rightarrow> block list \<Rightarrow> positions" where
  "layoutPos offset [] = []"
| "layoutPos offset ((n, C, D) # rest) =
     (n, offset + int (length C) + 1, offset + int (length C) + int (length D))
       # layoutPos (offset + int (length C) + int (length D) + 1) rest"

text \<open>
  A block is well-formed when its declaration begins with a non-blank line and ends with
  a line of code, and its leading lines are blank-or-comment lines that do not begin with
  a blank one. The lines in front of a block are well-formed when there are none or they
  end with a line of code and one empty line; the lines behind it when there are none or
  they begin with a non-blank line.
\<close>

definition blockOK :: "block \<Rightarrow> bool" where
  "blockOK b =
     (case b of (n, C, D) \<Rightarrow>
        D \<noteq> [] \<and> \<not> blankLine (hd D) \<and> \<not> blankOrComment (last D)
        \<and> list_all blankOrComment C \<and> (C = [] \<or> \<not> blankLine (hd C)))"

definition prefixOK :: "line list \<Rightarrow> bool" where
  "prefixOK P = (P = [] \<or> (\<exists>P' x. P = P' @ [x, []] \<and> \<not> blankOrComment x))"

definition suffixOK :: "line list \<Rightarrow> bool" where
  "suffixOK S = (S = [] \<or> \<not> blankLine (hd S))"

text \<open>
  An entry of the positions map as \<^verbatim>\<open>createSortedFuncPositions\<close> converts it, and the
  blocks that the extractor finds in a laid-out file: every block but possibly the first
  begins with the empty line in front of it.
\<close>

definition toFuncPos :: "string \<times> int \<times> int \<Rightarrow> funcPos" where
  "toFuncPos p = (case p of (n, s, e) \<Rightarrow> \<lparr>name = n, startLine = s - 1, endLine = e - 1\<rparr>)"

fun expectedBlocks :: "bool \<Rightarrow> block list \<Rightarrow> TestFunction list" where
  "expectedBlocks pad [] = []"
| "expectedBlocks pad ((n, C, D) # rest) =
     \<lparr>Name = n, Lines = (if pad then [[]] else []) @ C @ D\<rparr> # expectedBlocks True rest"

text \<open>
  The block of a declaration as the output lays it out: the name, the blank-or-comment
  lines above the declaration without the leading blank ones, and the declaration.
\<close>

definition toBlock :: "line list \<Rightarrow> funcPos \<Rightarrow> block" where
  "toBlock lines f =
     (name f,
      dropWhile blankLine
        (drop (nat (leadingBoundary lines (startLine f))) (take (nat (startLine f)) lines)),
      drop (nat (startLine f)) (take (nat (endLine f + 1)) lines))"

text \<open>The text of a declaration: the lines from its 1-based start line to its end line.\<close>

definition declarationText :: "line list \<Rightarrow> int \<Rightarrow> int \<Rightarrow> line list" where
  "declarationText lines s e = drop (nat (s - 1)) (take (nat e) lines)"

text \<open>
  Declarations on disjoint lines: of two declarations with different names one ends
  before the line on which the other starts. Declarations that end in code: the last
  line of every declaration is neither blank nor the beginning of a comment.
\<close>

definition disjointDeclarations :: "positions \<Rightarrow> bool" where
  "disjointDeclarations testFuncPos =
     list_all (\<lambda>(n, s, e).
        list_all (\<lambda>(n', s', e'). n = n' \<or> e < s' \<or> e' < s) testFuncPos) testFuncPos"

definition declarationsEndInCode :: "line list \<Rightarrow> positions \<Rightarrow> bool" where
  "declarationsEndInCode lines testFuncPos =
     list_all (\<lambda>(n, s, e). \<not> blankOrComment (lines ! nat (e - 1))) testFuncPos"

section \<open>The line classifier does not trim\<close>

lemma HasPrefix_append_iff: "HasPrefix s p \<longleftrightarrow> (\<exists>rest. s = p @ rest)"
proof
  assume "HasPrefix s p"
  then have "s = p @ drop (length p) s"
    by (metis HasPrefix_def append_take_drop_id)
  then show "\<exists>rest. s = p @ rest" ..
next
  assume "\<exists>rest. s = p @ rest"
  then show "HasPrefix s p"
    by (auto simp: HasPrefix_def)
qed

text \<open>
  C7, as the code has it. \<^verbatim>\<open>isCommentOrEmpty\<close> returns true exactly when the line it is
  given is the empty string or begins with \<^verbatim>\<open>//\<close> or \<^verbatim>\<open>/*\<close>. It does not trim, so it
  returns false for every non-empty line that begins with another character than
  \<^verbatim>\<open>/\<close>: a non-empty line of white space, a comment marker behind white space, a
  string literal that holds a comment marker.
\<close>

theorem isCommentOrEmpty_untrimmed:
  "(isCommentOrEmpty line \<longleftrightarrow>
      line = [] \<or> (\<exists>rest. line = ''//'' @ rest) \<or> (\<exists>rest. line = ''/*'' @ rest))
   \<and> (line \<noteq> [] \<and> hd line \<noteq> CHR ''/'' \<longrightarrow> \<not> isCommentOrEmpty line)"
proof
  show "isCommentOrEmpty line \<longleftrightarrow>
      line = [] \<or> (\<exists>rest. line = ''//'' @ rest) \<or> (\<exists>rest. line = ''/*'' @ rest)"
    unfolding isCommentOrEmpty_def HasPrefix_append_iff ..
  show "line \<noteq> [] \<and> hd line \<noteq> CHR ''/'' \<longrightarrow> \<not> isCommentOrEmpty line"
    by (cases line) (auto simp: isCommentOrEmpty_def HasPrefix_def)
qed

theorem isCommentOrEmpty_untrimmed_witness:
  "\<not> isCommentOrEmpty (''string := '' @ quote @ ''// not a comment'' @ quote)"
  using isCommentOrEmpty_untrimmed [of "''string := '' @ quote @ ''// not a comment'' @ quote"]
  by simp

text \<open>
  C7, as the specification has it, fails: the white space line of the repository's own
  test and an indented comment are both classified false, although the first is
  whitespace-only and the trimmed content of the second starts with the line-comment
  marker.
\<close>

theorem isCommentOrEmpty_whitespace_counterexample:
  "TrimSpace [CHR '' '', CHR '' '', CHR '' '', CHR 0x09, CHR '' '', CHR '' ''] = []
   \<and> \<not> isCommentOrEmpty [CHR '' '', CHR '' '', CHR '' '', CHR 0x09, CHR '' '', CHR '' '']
   \<and> HasPrefix (TrimSpace ''  // doc'') ''//''
   \<and> \<not> isCommentOrEmpty ''  // doc''"
  by code_simp

section \<open>Ordering of the emitted blocks\<close>

lemma appendFuncs_eq:
  "appendFuncs i fs out =
     out @ (if i > 0 \<and> fs \<noteq> [] then [[]] else [])
         @ separatedBlocks (map (\<lambda>f. dropLeadingEmpty (Lines f)) fs)"
proof (induction fs arbitrary: i out)
  case Nil
  then show ?case by simp
next
  case (Cons f rest)
  have "appendFuncs i (f # rest) out =
          ((if i > 0 then out @ [[]] else out) @ dropLeadingEmpty (Lines f))
            @ (if rest \<noteq> [] then [[]] else [])
            @ separatedBlocks (map (\<lambda>f. dropLeadingEmpty (Lines f)) rest)"
    by (simp only: appendFuncs.simps Cons.IH) simp
  then show ?case
    by (cases rest) simp_all
qed

text \<open>
  C1. The blocks that \<^verbatim>\<open>BuildOutputContent\<close> emits are the given test functions,
  each exactly once, in the order \<open>sortSlice\<close> gives them; the output lines end with
  these blocks, one after the other and separated by one empty line; and every block's
  name is at most the name of the block emitted right after it, in the byte-wise
  lexicographic order of strings.
\<close>

theorem BuildOutputContent_sorted_by_name:
  "mset (sortSlice testFuncs) = mset testFuncs
   \<and> (\<forall>i. Suc i < length (sortSlice testFuncs) \<longrightarrow>
          Name (sortSlice testFuncs ! i) \<le> Name (sortSlice testFuncs ! Suc i))
   \<and> (\<exists>pre. outputLinesOf testFuncs nonTestLines =
          pre @ separatedBlocks (map (\<lambda>f. dropLeadingEmpty (Lines f)) (sortSlice testFuncs)))
   \<and> BuildOutputContent testFuncs nonTestLines =
       withFinalNewline (Join (outputLinesOf testFuncs nonTestLines) newline)"
proof (intro conjI allI impI)
  show "mset (sortSlice testFuncs) = mset testFuncs"
    by (simp add: sortSlice_def)
next
  fix i
  assume i: "Suc i < length (sortSlice testFuncs)"
  have "sorted (map Name (sortSlice testFuncs))"
    by (simp add: sortSlice_def)
  then have "map Name (sortSlice testFuncs) ! i \<le> map Name (sortSlice testFuncs) ! Suc i"
    using i by (simp add: sorted_iff_nth_Suc del: nth_map)
  then show "Name (sortSlice testFuncs ! i) \<le> Name (sortSlice testFuncs ! Suc i)"
    using i by simp
next
  show "\<exists>pre. outputLinesOf testFuncs nonTestLines =
          pre @ separatedBlocks (map (\<lambda>f. dropLeadingEmpty (Lines f)) (sortSlice testFuncs))"
    unfolding outputLinesOf_def Let_def appendFuncs_eq by auto
next
  show "BuildOutputContent testFuncs nonTestLines =
       withFinalNewline (Join (outputLinesOf testFuncs nonTestLines) newline)"
    by (simp add: BuildOutputContent_def withFinalNewline_def Let_def)
qed

theorem BuildOutputContent_sorted_by_name_witness:
  "Suc 0 < length (sortSlice
     [\<lparr>Name = ''Test_beta'', Lines = [''func Test_beta() {'', ''}'']\<rparr>,
      \<lparr>Name = ''Test_alpha'', Lines = [''func Test_alpha() {'', ''}'']\<rparr>])
   \<and> Name (sortSlice
     [\<lparr>Name = ''Test_beta'', Lines = [''func Test_beta() {'', ''}'']\<rparr>,
      \<lparr>Name = ''Test_alpha'', Lines = [''func Test_alpha() {'', ''}'']\<rparr>] ! 0)
     \<le> Name (sortSlice
     [\<lparr>Name = ''Test_beta'', Lines = [''func Test_beta() {'', ''}'']\<rparr>,
      \<lparr>Name = ''Test_alpha'', Lines = [''func Test_alpha() {'', ''}'']\<rparr>] ! Suc 0)"
  using BuildOutputContent_sorted_by_name
    [of "[\<lparr>Name = ''Test_beta'', Lines = [''func Test_beta() {'', ''}'']\<rparr>,
          \<lparr>Name = ''Test_alpha'', Lines = [''func Test_alpha() {'', ''}'']\<rparr>]" "[]"]
  by (simp add: sortSlice_def)

section \<open>Errors of reading and parsing\<close>

text \<open>
  C9. When the input file cannot be read, or is read but does not parse, \<^verbatim>\<open>Exec\<close>
  returns an error that wraps the very error of the file system or of the parser, and
  the file system is left as it was: nothing is written.
\<close>

theorem Exec_read_or_parse_error:
  "(ReadFile w pathInput = Inl err \<longrightarrow>
      Exec parse w pathInput pathOutput =
        (Returned (Some (Wrapped ''failed to read input file'' err)), w)
      \<and> Unwrap (Wrapped ''failed to read input file'' err) = Some err)
   \<and> (ReadFile w pathInput = Inr content \<and> parse content = Inl err \<longrightarrow>
      Exec parse w pathInput pathOutput =
        (Returned (Some (Wrapped ''failed to parse Go file'' err)), w)
      \<and> Unwrap (Wrapped ''failed to parse Go file'' err) = Some err)"
  by (simp add: Exec_def ParseGoFile_def ParseFile_def)

theorem Exec_read_or_parse_error_witness:
  "ReadFile \<lparr>files = Map.empty, writable = (\<lambda>p. True)\<rparr> ''missing.go'' = Inl (PathError ''missing.go'')
   \<and> Exec (\<lambda>src. Inl (SyntaxError src)) \<lparr>files = Map.empty, writable = (\<lambda>p. True)\<rparr>
        ''missing.go'' ''out.go''
      = (Returned (Some (Wrapped ''failed to read input file'' (PathError ''missing.go''))),
         \<lparr>files = Map.empty, writable = (\<lambda>p. True)\<rparr>)
   \<and> ReadFile \<lparr>files = [''bad.go'' \<mapsto> ''package invalid syntax''], writable = (\<lambda>p. True)\<rparr>
        ''bad.go'' = Inr ''package invalid syntax''
   \<and> Exec (\<lambda>src. Inl (SyntaxError src))
        \<lparr>files = [''bad.go'' \<mapsto> ''package invalid syntax''], writable = (\<lambda>p. True)\<rparr>
        ''bad.go'' ''out.go''
      = (Returned (Some (Wrapped ''failed to parse Go file'' (SyntaxError ''package invalid syntax''))),
         \<lparr>files = [''bad.go'' \<mapsto> ''package invalid syntax''], writable = (\<lambda>p. True)\<rparr>)"
  using Exec_read_or_parse_error
    [of "\<lparr>files = Map.empty, writable = (\<lambda>p. True)\<rparr>" "''missing.go''" "PathError ''missing.go''"
        "\<lambda>src. Inl (SyntaxError src)" "''out.go''" "''package invalid syntax''"]
    Exec_read_or_parse_error
    [of "\<lparr>files = [''bad.go'' \<mapsto> ''package invalid syntax''], writable = (\<lambda>p. True)\<rparr>" "''bad.go''"
        "SyntaxError ''package invalid syntax''"
        "\<lambda>src. Inl (SyntaxError src)" "''out.go''" "''package invalid syntax''"]
  by (simp add: ReadFile_def)

section \<open>The loops in closed form\<close>

lemma lineAt_Some [simp]: "0 \<le> i \<Longrightarrow> i < int (length lines) \<Longrightarrow> lineAt lines i = Some (lines ! nat i)"
  by (simp add: lineAt_def)

lemma findCommentStart_eq:
  "s \<le> int (length lines) \<Longrightarrow>
   findCommentStart lines s =
     Some (s - int (length (takeWhile blankOrComment (rev (take (nat s) lines)))))"
proof (induction lines s rule: findCommentStart.induct)
  case (1 lines s)
  show ?case
  proof (cases "s > 0")
    case False
    then show ?thesis by (simp add: findCommentStart.simps)
  next
    case True
    define k where "k = nat (s - 1)"
    have k: "nat s = Suc k" "s = int k + 1"
      using True by (auto simp: k_def)
    with "1.prems" have kl: "k < length lines" by simp
    then have tk: "take (Suc k) lines = take k lines @ [lines ! k]"
      by (simp add: take_Suc_conv_app_nth)
    have la: "lineAt lines (s - 1) = Some (lines ! k)"
      using k kl by (simp add: lineAt_def)
    show ?thesis
    proof (cases "blankOrComment (lines ! k)")
      case bc: True
      then have cond: "HasPrefix (TrimSpace (lines ! k)) ''//'' \<or>
          HasPrefix (TrimSpace (lines ! k)) ''/*'' \<or> TrimSpace (lines ! k) = []"
        by (simp add: blankOrComment_def)
      have "findCommentStart lines s = findCommentStart lines (s - 1)"
        using True la cond by (subst findCommentStart.simps) simp
      also have "\<dots> = Some (s - 1 - int (length (takeWhile blankOrComment (rev (take (nat (s - 1)) lines)))))"
        by (rule "1.IH" [OF True la refl cond]) (use "1.prems" in simp)
      finally show ?thesis
        using k tk bc by simp
    next
      case nbc: False
      have "findCommentStart lines s = Some s"
        using True la nbc by (subst findCommentStart.simps) (simp add: blankOrComment_def)
      then show ?thesis
        using k tk nbc by simp
    qed
  qed
qed

lemma findCommentEnd_eq:
  "-1 \<le> e \<Longrightarrow>
   findCommentEnd lines e =
     Some (e + int (length (takeWhile blankLine (drop (nat (e + 1)) lines))))"
proof (induction lines e rule: findCommentEnd.induct)
  case (1 lines e)
  show ?case
  proof (cases "e < int (length lines) - 1")
    case False
    then show ?thesis by (simp add: findCommentEnd.simps)
  next
    case True
    define k where "k = nat (e + 1)"
    have k: "int k = e + 1" "k < length lines"
      using True "1.prems" by (auto simp: k_def)
    have dk: "drop k lines = lines ! k # drop (Suc k) lines"
      using k by (simp add: Cons_nth_drop_Suc)
    have "0 \<le> e + 1" "e + 1 < int (length lines)"
      using True "1.prems" by auto
    then have la: "lineAt lines (e + 1) = Some (lines ! k)"
      by (simp add: k_def)
    have k1: "nat (e + 1 + 1) = Suc k"
      using k by simp
    show ?thesis
    proof (cases "blankLine (lines ! k)")
      case b: True
      then have cond: "TrimSpace (lines ! k) = []"
        by (simp add: blankLine_def)
      have "findCommentEnd lines e = findCommentEnd lines (e + 1)"
        using True la cond by (subst findCommentEnd.simps) simp
      also have "\<dots> = Some (e + 1 + int (length (takeWhile blankLine (drop (nat (e + 1 + 1)) lines))))"
        by (rule "1.IH" [OF True la refl cond]) (use "1.prems" in simp)
      finally show ?thesis
        using dk b k1 by (simp add: k_def [symmetric])
    next
      case nb: False
      have "findCommentEnd lines e = Some e"
        using True la nb by (subst findCommentEnd.simps) (simp add: blankLine_def)
      then show ?thesis
        using dk nb by (simp add: k_def [symmetric])
    qed
  qed
qed

lemma markLoop_iff:
  "markLoop lines i commentEnd p j \<longleftrightarrow>
     p j \<or> (i \<le> j \<and> j \<le> commentEnd \<and> j < int (length lines))"
proof (induction lines i commentEnd p rule: markLoop.induct)
  case (1 lines i commentEnd p)
  show ?case
  proof (cases "i \<le> commentEnd \<and> i < int (length lines)")
    case True
    then have "markLoop lines i commentEnd p j = markLoop lines (i + 1) commentEnd (p(i := True)) j"
      by (subst markLoop.simps) simp
    also have "\<dots> \<longleftrightarrow> (p(i := True)) j \<or> (i + 1 \<le> j \<and> j \<le> commentEnd \<and> j < int (length lines))"
      using "1.IH" [OF True] .
    finally show ?thesis using True by auto
  next
    case False
    then have "markLoop lines i commentEnd p = p"
      by (subst markLoop.simps) (simp only: if_False)
    then show ?thesis using False by auto
  qed
qed

lemma appendLines_eq:
  "0 \<le> i \<Longrightarrow> e < int (length lines) \<Longrightarrow>
   appendLines lines i e acc = Some (acc @ drop (nat i) (take (nat (e + 1)) lines))"
proof (induction lines i e acc rule: appendLines.induct)
  case (1 lines i e acc)
  show ?case
  proof (cases "i \<le> e")
    case False
    then show ?thesis using "1.prems" by (subst appendLines.simps) simp
  next
    case True
    have la: "lineAt lines i = Some (lines ! nat i)"
      using True "1.prems" by simp
    have "appendLines lines i e acc = appendLines lines (i + 1) e (acc @ [lines ! nat i])"
      using True la by (subst appendLines.simps) simp
    also have "\<dots> = Some ((acc @ [lines ! nat i]) @ drop (nat (i + 1)) (take (nat (e + 1)) lines))"
      using "1.IH" [OF True la] "1.prems" by simp
    also have "drop (nat i) (take (nat (e + 1)) lines)
               = lines ! nat i # drop (nat (i + 1)) (take (nat (e + 1)) lines)"
    proof -
      have "nat i < length (take (nat (e + 1)) lines)"
        using True "1.prems" by simp
      then have "drop (nat i) (take (nat (e + 1)) lines)
                 = take (nat (e + 1)) lines ! nat i # drop (Suc (nat i)) (take (nat (e + 1)) lines)"
        by (rule Cons_nth_drop_Suc [symmetric])
      moreover have "take (nat (e + 1)) lines ! nat i = lines ! nat i"
        using True "1.prems" by simp
      moreover have "Suc (nat i) = nat (i + 1)"
        using "1.prems" by simp
      ultimately show ?thesis by simp
    qed
    then have "(acc @ [lines ! nat i]) @ drop (nat (i + 1)) (take (nat (e + 1)) lines)
               = acc @ drop (nat i) (take (nat (e + 1)) lines)"
      by simp
    finally show ?thesis by simp
  qed
qed

section \<open>The extractor in closed form\<close>

lemma findCommentStart_leadingBoundary:
  "s \<le> int (length lines) \<Longrightarrow> findCommentStart lines s = Some (leadingBoundary lines s)"
  by (simp add: findCommentStart_eq leadingBoundary_def)

lemma findCommentEnd_trailingBoundary:
  "-1 \<le> e \<Longrightarrow> findCommentEnd lines e = Some (trailingBoundary lines e)"
  by (simp add: findCommentEnd_eq trailingBoundary_def)

lemma leadingBoundary_bounds:
  "0 \<le> s \<Longrightarrow> 0 \<le> leadingBoundary lines s \<and> leadingBoundary lines s \<le> s"
proof -
  assume s: "0 \<le> s"
  have "length (takeWhile blankOrComment (rev (take (nat s) lines))) \<le> length (rev (take (nat s) lines))"
    by (rule length_takeWhile_le)
  also have "\<dots> \<le> nat s" by simp
  finally show ?thesis using s by (simp add: leadingBoundary_def)
qed

lemma trailingBoundary_bounds:
  "-1 \<le> e \<Longrightarrow> e < int (length lines) \<Longrightarrow>
   e \<le> trailingBoundary lines e \<and> trailingBoundary lines e < int (length lines)"
proof -
  assume e: "-1 \<le> e" "e < int (length lines)"
  have "length (takeWhile blankLine (drop (nat (e + 1)) lines)) \<le> length (drop (nat (e + 1)) lines)"
    by (rule length_takeWhile_le)
  also have "\<dots> = length lines - nat (e + 1)" by simp
  finally show ?thesis using e by (simp add: trailingBoundary_def)
qed

lemma exchangeLoop_mset:
  "exchangeLoop x ys = (m, rest) \<Longrightarrow> add_mset m (mset rest) = add_mset x (mset ys)"
  by (induction ys arbitrary: x m rest) (auto split: prod.splits if_splits)

lemma mset_sortByStartLine: "mset (sortByStartLine xs) = mset xs"
proof (induction xs rule: sortByStartLine.induct)
  case 1
  then show ?case by simp
next
  case (2 x xs)
  obtain m rest where e: "exchangeLoop x xs = (m, rest)"
    by (cases "exchangeLoop x xs")
  with 2 [OF e [symmetric]] exchangeLoop_mset [OF e] show ?case
    by simp
qed

lemma set_sortByStartLine: "set (sortByStartLine xs) = set xs"
  by (metis mset_sortByStartLine set_mset_mset)

lemma set_createSortedFuncPositions:
  "set (createSortedFuncPositions testFuncPos) =
     (\<lambda>(n, s, e). \<lparr>name = n, startLine = s - 1, endLine = e - 1\<rparr>) ` set testFuncPos"
  by (simp add: createSortedFuncPositions_def set_sortByStartLine)

lemma markFuncs_eq:
  "markFuncs lines fs p =
     Some (\<lambda>j. p j \<or> (\<exists>f\<in>set fs. inBounds lines f
                    \<and> leadingBoundary lines (startLine f) \<le> j
                    \<and> j \<le> trailingBoundary lines (endLine f)))"
proof (induction fs arbitrary: p)
  case Nil
  then show ?case by simp
next
  case (Cons f fs)
  show ?case
  proof (cases "inBounds lines f")
    case False
    then have "markFuncs lines (f # fs) p = markFuncs lines fs p"
      by (auto simp: inBounds_def)
    then show ?thesis using False by (simp add: Cons.IH)
  next
    case True
    then have b: "startLine f \<ge> 0" "startLine f < int (length lines)"
        "endLine f \<ge> 0" "endLine f < int (length lines)"
      by (simp_all add: inBounds_def)
    have cs: "findCommentStart lines (startLine f) = Some (leadingBoundary lines (startLine f))"
      using b by (simp add: findCommentStart_leadingBoundary)
    have ce: "findCommentEnd lines (endLine f) = Some (trailingBoundary lines (endLine f))"
      using b by (simp add: findCommentEnd_trailingBoundary)
    have tb: "trailingBoundary lines (endLine f) < int (length lines)"
      using trailingBoundary_bounds [of "endLine f" lines] b by simp
    have "markFuncs lines (f # fs) p =
            markFuncs lines fs (markLoop lines (leadingBoundary lines (startLine f))
                                  (trailingBoundary lines (endLine f)) p)"
      using b cs ce by simp
    also have "\<dots> = Some (\<lambda>j. markLoop lines (leadingBoundary lines (startLine f))
                                  (trailingBoundary lines (endLine f)) p j
                 \<or> (\<exists>f\<in>set fs. inBounds lines f
                    \<and> leadingBoundary lines (startLine f) \<le> j
                    \<and> j \<le> trailingBoundary lines (endLine f)))"
      by (rule Cons.IH)
    also have "\<dots> = Some (\<lambda>j. p j \<or> (\<exists>g\<in>set (f # fs). inBounds lines g
                    \<and> leadingBoundary lines (startLine g) \<le> j
                    \<and> j \<le> trailingBoundary lines (endLine g)))"
      using True tb by (auto simp: markLoop_iff fun_eq_iff)
    finally show ?thesis .
  qed
qed

lemma markProcessedLines_eq:
  "markProcessedLines lines fs =
     Some (\<lambda>j. \<exists>f\<in>set fs. inBounds lines f
                    \<and> leadingBoundary lines (startLine f) \<le> j
                    \<and> j \<le> trailingBoundary lines (endLine f))"
  by (simp add: markProcessedLines_def markFuncs_eq)

lemma extractTestFunctionWithComments_eq:
  assumes "map_of testFuncPos nm = Some (s, e)" "1 \<le> s" "s \<le> int (length lines) + 1"
    "e \<le> int (length lines)"
  shows "extractTestFunctionWithComments lines nm testFuncPos =
     Some (\<lparr>Name = nm,
            Lines = drop (nat (leadingBoundary lines (s - 1))) (take (nat e) lines)\<rparr>, e - 1)"
proof -
  have cs: "findCommentStart lines (s - 1) = Some (leadingBoundary lines (s - 1))"
    using assms by (simp add: findCommentStart_leadingBoundary)
  have "0 \<le> leadingBoundary lines (s - 1)"
    using leadingBoundary_bounds [of "s - 1" lines] assms by simp
  then have "appendLines lines (leadingBoundary lines (s - 1)) (e - 1) [] =
      Some (drop (nat (leadingBoundary lines (s - 1))) (take (nat e) lines))"
    using assms by (simp add: appendLines_eq)
  then show ?thesis
    using assms(1) cs by (simp add: extractTestFunctionWithComments_def)
qed

lemma extractFuncs_eq:
  assumes "\<And>f. f \<in> set fs \<Longrightarrow> map_of testFuncPos (name f) = Some (startLine f + 1, endLine f + 1)"
    and "\<And>f. f \<in> set fs \<Longrightarrow> endLine f < int (length lines)"
  shows "extractFuncs lines fs testFuncPos acc =
     Some (acc @ map (blockOf lines)
                   (filter (\<lambda>f. startLine f \<ge> 0 \<and> startLine f < int (length lines)) fs))"
  using assms
proof (induction fs arbitrary: acc)
  case Nil
  then show ?case by simp
next
  case (Cons f fs)
  have IH: "\<And>acc. extractFuncs lines fs testFuncPos acc =
     Some (acc @ map (blockOf lines)
                   (filter (\<lambda>f. startLine f \<ge> 0 \<and> startLine f < int (length lines)) fs))"
    by (rule Cons.IH) (simp_all add: Cons.prems)
  show ?case
  proof (cases "startLine f \<ge> 0 \<and> startLine f < int (length lines)")
    case False
    then show ?thesis by (auto simp: IH)
  next
    case True
    have "extractTestFunctionWithComments lines (name f) testFuncPos =
        Some (\<lparr>Name = name f,
            Lines = drop (nat (leadingBoundary lines (startLine f + 1 - 1)))
                      (take (nat (endLine f + 1)) lines)\<rparr>, endLine f + 1 - 1)"
      by (rule extractTestFunctionWithComments_eq)
         (use True Cons.prems(1) [of f] Cons.prems(2) [of f] in simp_all)
    then have "extractTestFunctionWithComments lines (name f) testFuncPos =
        Some (blockOf lines f, endLine f)"
      by (simp add: blockOf_def)
    then show ?thesis using True by (simp add: IH)
  qed
qed

section \<open>Safety of the index accesses\<close>

lemma extractFuncs_Some:
  assumes "validPositions lines testFuncPos"
    and "\<And>f. f \<in> set fs \<Longrightarrow> name f \<in> fst ` set testFuncPos"
  shows "\<exists>r. extractFuncs lines fs testFuncPos acc = Some r"
  using assms(2)
proof (induction fs arbitrary: acc)
  case Nil
  then show ?case by simp
next
  case (Cons f fs)
  have IH: "\<And>acc. \<exists>r. extractFuncs lines fs testFuncPos acc = Some r"
    by (rule Cons.IH) (simp add: Cons.prems)
  have "name f \<in> fst ` set testFuncPos"
    by (simp add: Cons.prems)
  then obtain p where p: "map_of testFuncPos (name f) = Some p"
    by (metis map_of_eq_None_iff not_Some_eq)
  obtain s e where se: "p = (s, e)" by (cases p)
  have "(name f, s, e) \<in> set testFuncPos"
    using p se by (simp add: map_of_SomeD)
  then have v: "1 \<le> s" "s \<le> e" "e \<le> int (length lines)"
    using assms(1) by (auto simp: validPositions_def list_all_iff)
  have "extractTestFunctionWithComments lines (name f) testFuncPos =
     Some (\<lparr>Name = name f,
            Lines = drop (nat (leadingBoundary lines (s - 1))) (take (nat e) lines)\<rparr>, e - 1)"
    by (rule extractTestFunctionWithComments_eq) (use p se v in simp_all)
  then show ?case
    using IH by simp
qed

text \<open>
  C10. When every declaration's 1-based start and end line satisfy
  \<open>1 \<le> start \<le> end \<le> len(lines)\<close>, \<^verbatim>\<open>separateTestAndNonTestContent\<close> does not panic:
  every index it reads is inside the slice. The bound on the end line is needed: the
  start line alone is checked before \<^verbatim>\<open>extractTestFunctionWithComments\<close> reads up to
  the end line, and a declaration that starts inside a two-line file and ends on line 3
  makes the program panic.
\<close>

theorem separateTestAndNonTestContent_in_bounds:
  "(validPositions lines testFuncPos \<longrightarrow>
      (\<exists>testFuncs nonTestLines.
         separateTestAndNonTestContent lines testFuncPos = Some (testFuncs, nonTestLines)))
   \<and> separateTestAndNonTestContent [''func Test_a() {'', ''}''] [(''Test_a'', 1, 3)] = None"
proof (intro conjI impI)
  assume v: "validPositions lines testFuncPos"
  have "\<And>f. f \<in> set (createSortedFuncPositions testFuncPos) \<Longrightarrow> name f \<in> fst ` set testFuncPos"
    by (force simp: set_createSortedFuncPositions)
  then obtain r where
    "extractFuncs lines (createSortedFuncPositions testFuncPos) testFuncPos [] = Some r"
    using extractFuncs_Some [OF v] by blast
  then show "\<exists>testFuncs nonTestLines.
         separateTestAndNonTestContent lines testFuncPos = Some (testFuncs, nonTestLines)"
    by (simp add: separateTestAndNonTestContent_def markProcessedLines_eq
        extractAllTestFunctions_def)
next
  show "separateTestAndNonTestContent [''func Test_a() {'', ''}''] [(''Test_a'', 1, 3)] = None"
    by code_simp
qed

theorem separateTestAndNonTestContent_in_bounds_witness:
  "validPositions [''func Test_a() {'', ''}''] [(''Test_a'', 1, 2)]
   \<and> separateTestAndNonTestContent [''func Test_a() {'', ''}''] [(''Test_a'', 1, 2)]
       = Some ([\<lparr>Name = ''Test_a'', Lines = [''func Test_a() {'', ''}'']\<rparr>], [])"
proof -
  have v: "validPositions [''func Test_a() {'', ''}''] [(''Test_a'', 1, 2)]"
    by (simp add: validPositions_def)
  have "separateTestAndNonTestContent [''func Test_a() {'', ''}''] [(''Test_a'', 1, 2)]
       = Some ([\<lparr>Name = ''Test_a'', Lines = [''func Test_a() {'', ''}'']\<rparr>], [])"
    by code_simp
  with v separateTestAndNonTestContent_in_bounds
         [of "[''func Test_a() {'', ''}'']" "[(''Test_a'', 1, 2)]"]
  show ?thesis by simp
qed

section \<open>A file without test functions\<close>

lemma Split_not_Nil [simp]: "Split s c \<noteq> []"
  by (induction s) (auto split: list.splits)

lemma Join_Cons: "es \<noteq> [] \<Longrightarrow> Join (e # es) c = e @ c # Join es c"
  by (cases es) simp_all

lemma Join_Split: "Join (Split s c) c = s"
proof (induction s)
  case Nil
  then show ?case by simp
next
  case (Cons x s)
  show ?case
  proof (cases "x = c")
    case True
    then show ?thesis using Cons by (simp add: Join_Cons)
  next
    case False
    obtain l ls where ls: "Split s c = l # ls"
      by (cases "Split s c") simp_all
    have "Join ((x # l) # ls) c = x # Join (l # ls) c"
      by (cases ls) simp_all
    then show ?thesis using False ls Cons by simp
  qed
qed

lemma Split_snoc_sep: "Split (s @ [c]) c = Split s c @ [[]]"
  by (induction s) (auto split: list.splits)

lemma Join_snoc_empty: "es \<noteq> [] \<Longrightarrow> Join (es @ [[]]) c = Join es c @ [c]"
proof (induction es)
  case Nil
  then show ?case by simp
next
  case (Cons e es)
  show ?case
  proof (cases "es = []")
    case True
    then show ?thesis by simp
  next
    case False
    then have "Join (e # es @ [[]]) c = e @ c # Join (es @ [[]]) c"
      by (simp add: Join_Cons)
    then show ?thesis using False Cons by (simp add: Join_Cons)
  qed
qed

lemma HasSuffix_snoc [simp]: "HasSuffix (s @ [c]) [c]"
  by (simp add: HasSuffix_def)

lemma collect_nths:
  "map snd (filter (\<lambda>(i, l). P i) (zip [0..<length xs] xs)) = nths xs {i. P i}"
proof -
  have "zip [0..<length xs] xs = map (\<lambda>(x, y). (y, x)) (zip xs [0..<length xs])"
    by (rule zip_commute)
  then show ?thesis
    by (simp add: nths_def filter_map comp_def case_prod_beta)
qed

lemma collectNonTestLines_eq:
  "collectNonTestLines lines p =
     (if nths lines {i. \<not> p (int i)} = [] then [] else nths lines {i. \<not> p (int i)} @ [[]])"
  by (simp add: collectNonTestLines_def Let_def collect_nths)

lemma fold_no_tests:
  "list_all (\<lambda>d. \<not> isTestDecl d) decls \<Longrightarrow>
   fold (\<lambda>d testFuncPos.
             case d of
               FuncDecl n start end' \<Rightarrow>
                 if \<not> HasPrefix n ''Test'' then testFuncPos
                 else AList.update n (start, end') testFuncPos
             | GenDecl \<Rightarrow> testFuncPos)
          decls acc = acc"
  by (induction decls arbitrary: acc) (auto simp: isTestDecl_def split: decl.splits)

lemma buildTestFunctionPositions_no_tests:
  "list_all (\<lambda>d. \<not> isTestDecl d) file \<Longrightarrow> buildTestFunctionPositions file = []"
  by (simp add: buildTestFunctionPositions_def fold_no_tests)

lemma separate_no_tests:
  "separateTestAndNonTestContent lines [] = Some ([], if lines = [] then [] else lines @ [[]])"
  by (simp add: separateTestAndNonTestContent_def createSortedFuncPositions_def
      markProcessedLines_def extractAllTestFunctions_def collectNonTestLines_eq nths_all)

lemma BuildOutputContent_no_tests:
  "lines \<noteq> [] \<Longrightarrow> BuildOutputContent [] (lines @ [[]]) = Join lines newline @ [newline]"
  by (simp add: BuildOutputContent_def outputLinesOf_def sortSlice_def Join_snoc_empty)

text \<open>
  C2, as the code has it. For a source file without test functions \<^verbatim>\<open>Exec\<close> writes the
  content of the file followed by one more newline character, whether or not the content
  already ends with one: every line of the input is kept, in its order, and one empty
  line is added at the end.
\<close>

theorem Exec_no_test_functions:
  assumes "ReadFile w pathInput = Inr content" and "parse content = Inr file"
    and "list_all (\<lambda>d. \<not> isTestDecl d) file" and "writable w pathOutput"
  shows "Exec parse w pathInput pathOutput =
           (Returned None, w\<lparr>files := (files w)(pathOutput \<mapsto> content @ [newline])\<rparr>)
         \<and> Split (content @ [newline]) newline = Split content newline @ [[]]"
proof -
  have "ParseGoFile parse w pathInput = Inr (Split content newline, file)"
    using assms(1,2) by (simp add: ParseGoFile_def ParseFile_def)
  moreover have "ExtractTestFunctions (Split content newline) file =
      Some ([], Split content newline @ [[]])"
    using assms(3)
    by (simp add: ExtractTestFunctions_def buildTestFunctionPositions_no_tests separate_no_tests)
  moreover have "BuildOutputContent [] (Split content newline @ [[]]) = content @ [newline]"
    by (simp add: BuildOutputContent_no_tests Join_Split)
  ultimately show ?thesis
    using assms(4) by (simp add: Exec_def WriteFile_def Split_snoc_sep)
qed

theorem Exec_no_test_functions_witness:
  "Exec (\<lambda>src. Inr [GenDecl, FuncDecl ''helper'' 3 4])
        \<lparr>files = [''a.go'' \<mapsto> ''package main''], writable = (\<lambda>p. True)\<rparr> ''a.go'' ''b.go''
     = (Returned None,
        \<lparr>files = [''a.go'' \<mapsto> ''package main'', ''b.go'' \<mapsto> ''package main'' @ [newline]],
         writable = (\<lambda>p. True)\<rparr>)"
  using Exec_no_test_functions
    [of "\<lparr>files = [''a.go'' \<mapsto> ''package main''], writable = (\<lambda>p. True)\<rparr>" "''a.go''"
        "''package main''" "\<lambda>src. Inr [GenDecl, FuncDecl ''helper'' 3 4]"
        "[GenDecl, FuncDecl ''helper'' 3 4]" "''b.go''"]
  by (simp add: ReadFile_def isTestDecl_def HasPrefix_def)

text \<open>
  C2, as the specification has it, fails on a file that already ends with a newline: the
  output has a second one, which the trailing-newline normalization does not add.
\<close>

theorem Exec_no_test_functions_counterexample:
  "fst (Exec (\<lambda>src. Inr [GenDecl])
        \<lparr>files = [''a.go'' \<mapsto> ''package main'' @ [newline]], writable = (\<lambda>p. True)\<rparr>
        ''a.go'' ''b.go'') = Returned None
   \<and> files (snd (Exec (\<lambda>src. Inr [GenDecl])
        \<lparr>files = [''a.go'' \<mapsto> ''package main'' @ [newline]], writable = (\<lambda>p. True)\<rparr>
        ''a.go'' ''b.go'')) ''b.go'' = Some (''package main'' @ [newline, newline])
   \<and> withFinalNewline (''package main'' @ [newline]) = ''package main'' @ [newline]"
  by code_simp

section \<open>Comments across blank lines\<close>

lemma nths_none: "(\<And>i. i < length xs \<Longrightarrow> i \<notin> A) \<Longrightarrow> nths xs A = []"
proof -
  assume "\<And>i. i < length xs \<Longrightarrow> i \<notin> A"
  then have "set (nths xs A) = {}"
    by (auto simp: set_nths)
  then show ?thesis by simp
qed

lemma nths_prefix:
  "(\<And>i. i < length xs + length ys \<Longrightarrow> i \<in> A \<longleftrightarrow> i < length xs) \<Longrightarrow> nths (xs @ ys) A = xs"
proof -
  assume a: "\<And>i. i < length xs + length ys \<Longrightarrow> i \<in> A \<longleftrightarrow> i < length xs"
  have "nths xs A = xs"
    by (rule nths_all) (use a in auto)
  moreover have "nths ys {j. j + length xs \<in> A} = []"
    by (rule nths_none) (use a in force)
  ultimately show ?thesis by (simp add: nths_append)
qed

lemma TrimSpace_Nil [simp]: "TrimSpace [] = []"
  by (simp add: TrimSpace_def trimLeftRunes.simps whiteSpaceRunes_def HasPrefix_def)

lemma blankLine_Nil [simp]: "blankLine []"
  by (simp add: blankLine_def)

lemma dropLeadingEmpty_eq: "dropLeadingEmpty xs = dropWhile blankLine xs"
  by (induction xs) (simp_all add: blankLine_def)

lemma dropTrailingEmpty_eq: "dropTrailingEmpty xs = rev (dropWhile blankLine (rev xs))"
proof (induction xs rule: dropTrailingEmpty.induct)
  case (1 xs)
  show ?case
  proof (cases "length xs > 0 \<and> TrimSpace (last xs) = []")
    case True
    then obtain ys y where xs: "xs = ys @ [y]"
      by (cases xs rule: rev_cases) auto
    have "dropTrailingEmpty xs = dropTrailingEmpty (butlast xs)"
      using True by (subst dropTrailingEmpty.simps) simp
    also have "\<dots> = rev (dropWhile blankLine (rev (butlast xs)))"
      using "1.IH" [OF True] .
    finally have "dropTrailingEmpty xs = rev (dropWhile blankLine (rev (butlast xs)))" .
    moreover have "blankLine y"
      using True xs by (simp add: blankLine_def)
    ultimately show ?thesis
      using xs by simp
  next
    case False
    then have "dropTrailingEmpty xs = xs"
      by (subst dropTrailingEmpty.simps) (simp only: if_False)
    moreover have "rev (dropWhile blankLine (rev xs)) = xs"
    proof (cases xs rule: rev_cases)
      case Nil
      then show ?thesis by simp
    next
      case (snoc ys y)
      then have "\<not> blankLine y"
        using False by (simp add: blankLine_def)
      then show ?thesis using snoc by simp
    qed
    ultimately show ?thesis by simp
  qed
qed

lemma sortByStartLine_single [simp]: "sortByStartLine [f] = [f]"
  by simp

lemma HasPrefix_not_empty: "HasPrefix s p \<Longrightarrow> p \<noteq> [] \<Longrightarrow> s \<noteq> []"
  by (auto simp: HasPrefix_def)

lemma HasPrefix_differ:
  "HasPrefix s p \<Longrightarrow> HasPrefix s q \<Longrightarrow> length q \<le> length p \<Longrightarrow> take (length q) p = q"
  by (metis HasPrefix_def min.absorb2 take_take min.commute)

lemma package_line_not_blankOrComment:
  "HasPrefix (TrimSpace l) ''package '' \<Longrightarrow> \<not> blankOrComment l"
  unfolding blankOrComment_def
  by (auto dest: HasPrefix_differ HasPrefix_not_empty)

lemma import_line_not_blankOrComment:
  "HasPrefix (TrimSpace l) ''import '' \<Longrightarrow> \<not> blankOrComment l"
  unfolding blankOrComment_def
  by (auto dest: HasPrefix_differ HasPrefix_not_empty)

text \<open>
  C5. In a file that consists of a package line, one import line, a blank line, a comment
  line, a blank line and a test function, the comment belongs to the function: the block
  of the function holds the comment, the remainder holds the package and import lines
  only, the output shows the comment right above the function, and the ownership
  predicate \<^verbatim>\<open>isCommentBeforeTestFunction\<close> agrees.
\<close>

theorem orphan_comment_attributed:
  assumes p: "HasPrefix (TrimSpace p) ''package ''"
    and im: "HasPrefix (TrimSpace im) ''import ''"
    and b1: "TrimSpace b1 = []" and b2: "TrimSpace b2 = []"
    and c: "HasPrefix (TrimSpace c) ''//'' \<or> HasPrefix (TrimSpace c) ''/*''"
    and body: "body \<noteq> []"
  shows "separateTestAndNonTestContent ([p, im, b1, c, b2] @ body)
           [(nm, 6, 5 + int (length body))]
         = Some ([\<lparr>Name = nm, Lines = [b1, c, b2] @ body\<rparr>], [p, im, []])
       \<and> outputLinesOf [\<lparr>Name = nm, Lines = [b1, c, b2] @ body\<rparr>] [p, im, []]
         = [p, im, [], c, b2] @ body
       \<and> isCommentBeforeTestFunction 3 ([p, im, b1, c, b2] @ body) 6 = Some True"
proof (intro conjI)
  let ?lines = "[p, im, b1, c, b2] @ body"
  let ?f = "\<lparr>name = nm, startLine = 5, endLine = 4 + int (length body)\<rparr>"
  have cne: "TrimSpace c \<noteq> []"
    using c by (auto dest: HasPrefix_not_empty)
  have boc: "blankOrComment b1" "blankOrComment b2" "blankOrComment c" "\<not> blankOrComment im"
    using b1 b2 c import_line_not_blankOrComment [OF im] by (auto simp: blankOrComment_def)
  have sorted: "createSortedFuncPositions [(nm, 6, 5 + int (length body))] = [?f]"
    by (simp add: createSortedFuncPositions_def)
  have inb: "inBounds ?lines ?f"
    using body by (simp add: inBounds_def)
  have lb: "leadingBoundary ?lines 5 = 2"
    using boc by (simp add: leadingBoundary_def)
  have tb: "trailingBoundary ?lines (4 + int (length body)) = 4 + int (length body)"
    by (simp add: trailingBoundary_def)
  have mark: "markProcessedLines ?lines [?f] = Some (\<lambda>j. 2 \<le> j \<and> j \<le> 4 + int (length body))"
    using inb lb tb by (simp add: markProcessedLines_eq)
  have "nths ([p, im] @ ([b1, c, b2] @ body)) {i. \<not> (2 \<le> int i \<and> int i \<le> 4 + int (length body))}
        = [p, im]"
    by (rule nths_prefix) auto
  then have rem: "collectNonTestLines ?lines (\<lambda>j. 2 \<le> j \<and> j \<le> 4 + int (length body)) = [p, im, []]"
    by (simp add: collectNonTestLines_eq)
  have "extractFuncs ?lines [?f] [(nm, 6, 5 + int (length body))] [] =
     Some ([] @ map (blockOf ?lines)
                   (filter (\<lambda>f. startLine f \<ge> 0 \<and> startLine f < int (length ?lines)) [?f]))"
    by (rule extractFuncs_eq) simp_all
  also have "\<dots> = Some [\<lparr>Name = nm, Lines = [b1, c, b2] @ body\<rparr>]"
    using body lb by (simp add: blockOf_def)
  finally have ext: "extractAllTestFunctions ?lines [?f] [(nm, 6, 5 + int (length body))]
      = Some [\<lparr>Name = nm, Lines = [b1, c, b2] @ body\<rparr>]"
    by (simp add: extractAllTestFunctions_def)
  show "separateTestAndNonTestContent ?lines [(nm, 6, 5 + int (length body))]
         = Some ([\<lparr>Name = nm, Lines = [b1, c, b2] @ body\<rparr>], [p, im, []])"
    by (simp only: separateTestAndNonTestContent_def sorted Let_def mark ext rem option.case)
  have "\<not> blankLine im"
    using boc by (simp add: blankLine_def blankOrComment_def)
  then have "dropTrailingEmpty [p, im, []] = [p, im]"
    by (simp add: dropTrailingEmpty_eq)
  then show "outputLinesOf [\<lparr>Name = nm, Lines = [b1, c, b2] @ body\<rparr>] [p, im, []]
         = [p, im, [], c, b2] @ body"
    using b1 cne by (simp add: outputLinesOf_def sortSlice_def dropLeadingEmpty_eq blankLine_def)
  have la: "lineAt ?lines 3 = Some c" "lineAt ?lines 4 = Some b2" "lineAt ?lines 2 = Some b1"
    "lineAt ?lines 1 = Some im" "lineAt ?lines 0 = Some p"
    by (simp_all add: lineAt_def)
  have oe: "onlyEmptyBetween ?lines 4 5 = Some True"
    using la b2
    by (simp add: onlyEmptyBetween.simps [of _ 4 5] onlyEmptyBetween.simps [of _ 5 5])
  have h: "hasActualCodeAt ?lines 2 = Some False" "hasActualCodeAt ?lines 1 = Some False"
    "hasActualCodeAt ?lines 0 = Some False"
    using la b1 im p by (simp_all add: hasActualCodeAt_def isBoilerplateCode_def Let_def)
  have ac: "actualCodeBefore ?lines 2 = Some False"
    using h
    by (simp add: actualCodeBefore.simps [of _ 2] actualCodeBefore.simps [of _ 1]
        actualCodeBefore.simps [of _ 0] actualCodeBefore.simps [of _ "-1"])
  show "isCommentBeforeTestFunction 3 ?lines 6 = Some True"
    using la c cne oe ac by (auto simp: isCommentBeforeTestFunction_def isCommentOrEmpty_def)
qed

theorem orphan_comment_attributed_witness:
  "separateTestAndNonTestContent
     [''package main'', ''import '' @ quote @ ''testing'' @ quote, [], ''// doc'', [],
      ''func Test_x(t *testing.T) {'', ''}'']
     [(''Test_x'', 6, 7)]
   = Some ([\<lparr>Name = ''Test_x'',
             Lines = [[], ''// doc'', [], ''func Test_x(t *testing.T) {'', ''}'']\<rparr>],
           [''package main'', ''import '' @ quote @ ''testing'' @ quote, []])"
proof -
  have h: "HasPrefix (TrimSpace ''package main'') ''package ''"
    "HasPrefix (TrimSpace (''import '' @ quote @ ''testing'' @ quote)) ''import ''"
    "TrimSpace [] = []"
    "HasPrefix (TrimSpace ''// doc'') ''//'' \<or> HasPrefix (TrimSpace ''// doc'') ''/*''"
    "[''func Test_x(t *testing.T) {'', ''}''] \<noteq> []"
    by code_simp+
  from orphan_comment_attributed [OF h(1) h(2) h(3) h(3) h(4) h(5), of "''Test_x''"]
  show ?thesis by simp
qed

text \<open>
  C4, evaluated on the code. With a non-test function declared above the comment, the
  extractor still walks back from the test function over the blank line and the comment:
  the comment is in the block of the test function and not in the remainder, although
  \<^verbatim>\<open>isCommentBeforeTestFunction\<close> answers that the comment does not belong to the
  function.
\<close>

theorem comment_after_other_code_attached:
  "separateTestAndNonTestContent
     [''package main'', ''import '' @ quote @ ''testing'' @ quote, [], ''func other() {}'',
      ''// doc'', [], ''func Test_x(t *testing.T) {'', ''}'']
     [(''Test_x'', 7, 8)]
   = Some ([\<lparr>Name = ''Test_x'',
             Lines = [''// doc'', [], ''func Test_x(t *testing.T) {'', ''}'']\<rparr>],
           [''package main'', ''import '' @ quote @ ''testing'' @ quote, [],
            ''func other() {}'', []])
   \<and> isCommentBeforeTestFunction 4
     [''package main'', ''import '' @ quote @ ''testing'' @ quote, [], ''func other() {}'',
      ''// doc'', [], ''func Test_x(t *testing.T) {'', ''}''] 7 = Some False"
  by code_simp

section \<open>The backward scan of an import block\<close>

text \<open>
  C8, evaluated on the code. A block comment on a line of its own inside the import block
  stops the backward scan: neither the closing parenthesis nor the quoted line is
  recognised as part of the import block, and the closing parenthesis counts as real
  code, although \<^verbatim>\<open>isBoilerplateCode\<close> takes the same comment line for a comment.
  With a line comment in the same place the scan reaches the opening token.
\<close>

theorem import_scan_stops_at_block_comment:
  "isEndOfImportBlock
     [''package main'', [], ''import ('', ''    /* standard library */'',
      ''    '' @ quote @ ''fmt'' @ quote, '')''] 5 = Some False
   \<and> isInImportBlock
     [''package main'', [], ''import ('', ''    /* standard library */'',
      ''    '' @ quote @ ''fmt'' @ quote, '')''] 4 = Some False
   \<and> hasActualCodeAt
     [''package main'', [], ''import ('', ''    /* standard library */'',
      ''    '' @ quote @ ''fmt'' @ quote, '')''] 5 = Some True
   \<and> isBoilerplateCode (TrimSpace ''    /* standard library */'')
   \<and> isEndOfImportBlock
     [''package main'', [], ''import ('', ''    // standard library'',
      ''    '' @ quote @ ''fmt'' @ quote, '')''] 5 = Some True"
  by code_simp

section \<open>The partition of the lines\<close>




lemma visibleIn_iff:
  "startLine f \<le> int (length lines) \<Longrightarrow>
   visibleIn lines f i \<longleftrightarrow> leadingBoundary lines (startLine f) \<le> i \<and> i \<le> endLine f"
  by (simp add: visibleIn_def findCommentStart_leadingBoundary)

lemma sorted_positions_valid:
  assumes "validPositions lines testFuncPos" "distinct (map fst testFuncPos)"
    and "f \<in> set (createSortedFuncPositions testFuncPos)"
  shows "map_of testFuncPos (name f) = Some (startLine f + 1, endLine f + 1)"
    and "inBounds lines f" and "startLine f \<le> endLine f"
proof -
  obtain n s e where f: "f = \<lparr>name = n, startLine = s - 1, endLine = e - 1\<rparr>"
    and m: "(n, s, e) \<in> set testFuncPos"
    using assms(3) by (auto simp: set_createSortedFuncPositions)
  show "map_of testFuncPos (name f) = Some (startLine f + 1, endLine f + 1)"
    using assms(2) m f by simp
  have "1 \<le> s \<and> s \<le> e \<and> e \<le> int (length lines)"
    using assms(1) m by (auto simp: validPositions_def list_all_iff)
  then show "inBounds lines f" "startLine f \<le> endLine f"
    using f by (simp_all add: inBounds_def)
qed


lemma leading_run_blankOrComment:
  assumes "0 \<le> s" "s \<le> int (length lines)" "leadingBoundary lines s \<le> i" "i < s"
  shows "blankOrComment (lines ! nat i)"
proof -
  let ?xs = "rev (take (nat s) lines)"
  define j where "j = nat (s - 1 - i)"
  have len: "length ?xs = nat s"
    using assms by simp
  have j: "j < length (takeWhile blankOrComment ?xs)"
    using assms by (simp add: leadingBoundary_def j_def)
  then have "takeWhile blankOrComment ?xs ! j \<in> set (takeWhile blankOrComment ?xs)"
    by simp
  then have "blankOrComment (takeWhile blankOrComment ?xs ! j)"
    by (rule set_takeWhileD [THEN conjunct2])
  moreover have "takeWhile blankOrComment ?xs ! j = ?xs ! j"
    using j by (rule takeWhile_nth)
  moreover have jl: "j < length (take (nat s) lines)"
    using j length_takeWhile_le [of blankOrComment ?xs] by simp
  moreover have i0: "0 \<le> i"
    using leadingBoundary_bounds [OF assms(1), of lines] assms(3) by simp
  have "?xs ! j = take (nat s) lines ! (length (take (nat s) lines) - Suc j)"
    using jl by (rule rev_nth)
  moreover have "length (take (nat s) lines) - Suc j = nat i"
    using assms i0 by (simp add: j_def)
  moreover have "nat i < nat s"
    using assms i0 by simp
  ultimately show ?thesis
    by simp
qed

lemma code_before_leadingBoundary:
  assumes "0 \<le> e" "e < s" "s \<le> int (length lines)" "\<not> blankOrComment (lines ! nat e)"
  shows "e < leadingBoundary lines s"
proof (rule ccontr)
  assume "\<not> e < leadingBoundary lines s"
  then have "leadingBoundary lines s \<le> e" by simp
  then have "blankOrComment (lines ! nat e)"
    using assms by (intro leading_run_blankOrComment [of s lines e]) simp_all
  with assms(4) show False by simp
qed

lemma disjoint_blocks:
  assumes valid: "validPositions lines testFuncPos" and dist: "distinct (map fst testFuncPos)"
    and disj: "disjointDeclarations testFuncPos"
    and code: "declarationsEndInCode lines testFuncPos"
    and f: "f \<in> set (createSortedFuncPositions testFuncPos)"
    and g: "g \<in> set (createSortedFuncPositions testFuncPos)"
    and fg: "f \<noteq> g"
  shows "endLine f < leadingBoundary lines (startLine g)
       \<or> endLine g < leadingBoundary lines (startLine f)"
proof -
  obtain n s e where fe: "f = \<lparr>name = n, startLine = s - 1, endLine = e - 1\<rparr>"
    and fm: "(n, s, e) \<in> set testFuncPos"
    using f by (auto simp: set_createSortedFuncPositions)
  obtain n' s' e' where ge: "g = \<lparr>name = n', startLine = s' - 1, endLine = e' - 1\<rparr>"
    and gm: "(n', s', e') \<in> set testFuncPos"
    using g by (auto simp: set_createSortedFuncPositions)
  have nn: "n \<noteq> n'"
  proof
    assume "n = n'"
    then have "(s, e) = (s', e')"
      using dist fm gm by (metis map_of_is_SomeI option.inject)
    with \<open>n = n'\<close> fg fe ge show False by simp
  qed
  have order: "e < s' \<or> e' < s"
    using disj fm gm nn by (auto simp: disjointDeclarations_def list_all_iff)
  have vf: "1 \<le> s" "s \<le> e" "e \<le> int (length lines)"
    and vg: "1 \<le> s'" "s' \<le> e'" "e' \<le> int (length lines)"
    using valid fm gm by (auto simp: validPositions_def list_all_iff)
  have cf: "\<not> blankOrComment (lines ! nat (e - 1))" and cg: "\<not> blankOrComment (lines ! nat (e' - 1))"
    using code fm gm by (auto simp: declarationsEndInCode_def list_all_iff)
  from order show ?thesis
  proof
    assume "e < s'"
    then have "e - 1 < leadingBoundary lines (s' - 1)"
      using vf vg cf by (intro code_before_leadingBoundary) simp_all
    then show ?thesis by (simp add: fe ge)
  next
    assume "e' < s"
    then have "e' - 1 < leadingBoundary lines (s - 1)"
      using vf vg cg by (intro code_before_leadingBoundary) simp_all
    then show ?thesis by (simp add: fe ge)
  qed
qed




section \<open>A second run on the output of the first\<close>

lemma blankOrComment_Nil [simp]: "blankOrComment []"
  by (simp add: blankOrComment_def)

lemma blankLine_blankOrComment: "blankLine l \<Longrightarrow> blankOrComment l"
  by (simp add: blankLine_def blankOrComment_def)

lemma takeWhile_rev_prefixOK:
  "prefixOK P \<Longrightarrow> length (takeWhile blankOrComment (rev P)) = (if P = [] then 0 else 1)"
  by (auto simp: prefixOK_def)

lemma local_leadingBoundary:
  assumes "prefixOK P" "list_all blankOrComment C"
  shows "leadingBoundary (P @ C @ R) (int (length P) + int (length C))
           = (if P = [] then 0 else int (length P) - 1)"
proof -
  have "nat (int (length P) + int (length C)) = length P + length C"
    by simp
  then have "take (nat (int (length P) + int (length C))) (P @ C @ R) = P @ C"
    by simp
  moreover have "takeWhile blankOrComment (rev C @ rev P) = rev C @ takeWhile blankOrComment (rev P)"
    by (rule takeWhile_append2) (use assms(2) in \<open>simp add: list_all_iff\<close>)
  ultimately show ?thesis
    using takeWhile_rev_prefixOK [OF assms(1)]
    by (simp add: leadingBoundary_def)
qed

lemma local_trailingBoundary:
  assumes "suffixOK S" "D \<noteq> []"
  shows "trailingBoundary (P @ C @ D @ [[]] @ S)
            (int (length P) + int (length C) + int (length D) - 1)
           = int (length P) + int (length C) + int (length D)"
proof -
  have "nat (int (length P) + int (length C) + int (length D) - 1 + 1)
          = length P + length C + length D"
    by simp
  then have "drop (nat (int (length P) + int (length C) + int (length D) - 1 + 1))
               (P @ C @ D @ [[]] @ S) = [] # S"
    by simp
  moreover have "takeWhile blankLine S = []"
    using assms(1) by (cases S) (auto simp: suffixOK_def)
  ultimately show ?thesis
    by (simp add: trailingBoundary_def)
qed

lemma suffixOK_blocksLines: "list_all blockOK bs \<Longrightarrow> suffixOK (blocksLines bs)"
proof (cases bs)
  case Nil
  then show ?thesis by (simp add: suffixOK_def blocksLines_def)
next
  case (Cons b rest)
  assume "list_all blockOK bs"
  then have ok: "blockOK b" using Cons by simp
  obtain n C D where b: "b = (n, C, D)" by (cases b)
  have "hd (blocksLines bs) = hd (C @ D)"
    using ok b Cons by (cases C; cases D) (auto simp: blocksLines_def blockOK_def)
  moreover have "\<not> blankLine (hd (C @ D))"
    using ok b by (cases C) (auto simp: blockOK_def)
  ultimately show ?thesis by (simp add: suffixOK_def)
qed

lemma prefixOK_extend: "blockOK (n, C, D) \<Longrightarrow> prefixOK (P @ C @ D @ [[]])"
proof -
  assume ok: "blockOK (n, C, D)"
  then have "D = butlast D @ [last D]" "\<not> blankOrComment (last D)"
    by (simp_all add: blockOK_def)
  then have "P @ C @ D @ [[]] = (P @ C @ butlast D) @ [last D, []] \<and> \<not> blankOrComment (last D)"
    by (metis append.assoc append_Cons append_Nil)
  then show ?thesis
    unfolding prefixOK_def by blast
qed

lemma prefixOK_drop_last: "prefixOK P \<Longrightarrow> P \<noteq> [] \<Longrightarrow> drop (length P - 1) P = [[]]"
  by (auto simp: prefixOK_def)

lemma block_head:
  assumes P: "prefixOK P" and ok: "blockOK (n, C, D)" and S: "suffixOK S"
  defines "L \<equiv> P @ C @ D @ [[]] @ S"
  defines "f \<equiv> \<lparr>name = n, startLine = int (length P) + int (length C),
                 endLine = int (length P) + int (length C) + int (length D) - 1\<rparr>"
  shows "inBounds L f"
    and "leadingBoundary L (startLine f) = (if P = [] then 0 else int (length P) - 1)"
    and "trailingBoundary L (endLine f) = int (length P) + int (length C) + int (length D)"
    and "blockOf L f = \<lparr>Name = n, Lines = (if P = [] then [] else [[]]) @ C @ D\<rparr>"
proof -
  have D: "D \<noteq> []" and C: "list_all blankOrComment C"
    using ok by (simp_all add: blockOK_def)
  show "inBounds L f"
    using D by (cases D) (simp_all add: inBounds_def L_def f_def)
  show lb: "leadingBoundary L (startLine f) = (if P = [] then 0 else int (length P) - 1)"
    unfolding L_def f_def using local_leadingBoundary [OF P C] by simp
  show "trailingBoundary L (endLine f) = int (length P) + int (length C) + int (length D)"
    unfolding L_def f_def using local_trailingBoundary [OF S D] by simp
  have "nat (endLine f + 1) = length P + length C + length D"
    by (simp add: f_def)
  then have tk: "take (nat (endLine f + 1)) L = P @ C @ D"
    by (simp add: L_def)
  have dr: "drop (nat (leadingBoundary L (startLine f))) (P @ C @ D)
          = (if P = [] then [] else [[]]) @ C @ D"
  proof (cases "P = []")
    case True
    then show ?thesis using lb by simp
  next
    case False
    then have "nat (leadingBoundary L (startLine f)) = length P - 1"
      using lb by (simp add: nat_diff_distrib')
    then show ?thesis
      using False prefixOK_drop_last [OF P False] by simp
  qed
  have "name f = n"
    by (simp add: f_def)
  then show "blockOf L f = \<lparr>Name = n, Lines = (if P = [] then [] else [[]]) @ C @ D\<rparr>"
    by (simp only: blockOf_def tk dr)
qed

lemma bex_Cons: "(\<exists>x\<in>set (a # xs). Q x) \<longleftrightarrow> Q a \<or> (\<exists>x\<in>set xs. Q x)"
  by simp

lemma layout_blocks:
  assumes "prefixOK P" "list_all blockOK bs"
  shows "map (blockOf (P @ blocksLines bs)) (map toFuncPos (layoutPos (int (length P)) bs))
           = expectedBlocks (P \<noteq> []) bs
       \<and> (\<forall>f\<in>set (map toFuncPos (layoutPos (int (length P)) bs)). inBounds (P @ blocksLines bs) f)
       \<and> (\<forall>j. (\<exists>f\<in>set (map toFuncPos (layoutPos (int (length P)) bs)).
                  inBounds (P @ blocksLines bs) f
                  \<and> leadingBoundary (P @ blocksLines bs) (startLine f) \<le> j
                  \<and> j \<le> trailingBoundary (P @ blocksLines bs) (endLine f))
             \<longleftrightarrow> (bs \<noteq> [] \<and> (if P = [] then 0 else int (length P) - 1) \<le> j
                     \<and> j < int (length (P @ blocksLines bs))))"
  using assms
proof (induction bs arbitrary: P)
  case Nil
  then show ?case by simp
next
  case (Cons b rest)
  obtain n C D where b: "b = (n, C, D)" by (cases b)
  have ok: "blockOK (n, C, D)" and okr: "list_all blockOK rest"
    using Cons.prems(2) b by simp_all
  let ?S = "blocksLines rest"
  let ?P' = "P @ C @ D @ [[]]"
  let ?L = "P @ blocksLines ((n, C, D) # rest)"
  let ?f = "\<lparr>name = n, startLine = int (length P) + int (length C),
                 endLine = int (length P) + int (length C) + int (length D) - 1\<rparr>"
  let ?fs = "map toFuncPos (layoutPos (int (length ?P')) rest)"
  have L1: "?L = P @ C @ D @ [[]] @ ?S"
    by (simp add: blocksLines_def)
  have L2: "?L = ?P' @ ?S"
    by (simp add: blocksLines_def)
  have off: "int (length P) + int (length C) + int (length D) + 1 = int (length ?P')"
    by simp
  have "toFuncPos (n, int (length P) + int (length C) + 1,
                   int (length P) + int (length C) + int (length D)) = ?f"
    by (simp add: toFuncPos_def)
  then have lay: "map toFuncPos (layoutPos (int (length P)) ((n, C, D) # rest)) = ?f # ?fs"
    by (simp only: layoutPos.simps off list.map)
  have hd1: "inBounds ?L ?f"
    and hd2: "leadingBoundary ?L (startLine ?f) = (if P = [] then 0 else int (length P) - 1)"
    and hd3: "trailingBoundary ?L (endLine ?f) = int (length P) + int (length C) + int (length D)"
    and hd4: "blockOf ?L ?f = \<lparr>Name = n, Lines = (if P = [] then [] else [[]]) @ C @ D\<rparr>"
    unfolding L1 by (rule block_head [OF Cons.prems(1) ok suffixOK_blocksLines [OF okr]])+
  have P': "prefixOK ?P'" by (rule prefixOK_extend [OF ok])
  have ne: "(?P' \<noteq> []) = True" "(?P' = []) = False" by simp_all
  have IH: "map (blockOf ?L) ?fs = expectedBlocks True rest
       \<and> (\<forall>f\<in>set ?fs. inBounds ?L f)
       \<and> (\<forall>j. (\<exists>f\<in>set ?fs.
                  inBounds ?L f
                  \<and> leadingBoundary ?L (startLine f) \<le> j
                  \<and> j \<le> trailingBoundary ?L (endLine f))
             \<longleftrightarrow> (rest \<noteq> [] \<and> int (length ?P') - 1 \<le> j
                     \<and> j < int (length ?L)))"
    using Cons.IH [OF P' okr] unfolding L2 ne if_False not_False_eq_True .
  have 1: "map (blockOf ?L) (map toFuncPos (layoutPos (int (length P)) ((n, C, D) # rest)))
           = expectedBlocks (P \<noteq> []) ((n, C, D) # rest)"
    by (simp only: lay list.map hd4 IH [THEN conjunct1] expectedBlocks.simps) simp
  have 2: "\<forall>f\<in>set (map toFuncPos (layoutPos (int (length P)) ((n, C, D) # rest))).
             inBounds ?L f"
    using hd1 IH [THEN conjunct2, THEN conjunct1] by (simp only: lay) simp
  have 3: "(\<exists>f\<in>set (map toFuncPos (layoutPos (int (length P)) ((n, C, D) # rest))).
                  inBounds ?L f \<and> leadingBoundary ?L (startLine f) \<le> j
                  \<and> j \<le> trailingBoundary ?L (endLine f))
             \<longleftrightarrow> ((n, C, D) # rest \<noteq> [] \<and> (if P = [] then 0 else int (length P) - 1) \<le> j
                     \<and> j < int (length ?L))" for j
  proof -
    define m where "m = int (length P) + int (length C) + int (length D)"
    define a where "a = (if P = [] then 0 else int (length P) - 1)"
    define s where "s = int (length ?S)"
    define T where "T \<longleftrightarrow> (\<exists>f\<in>set ?fs.
                  inBounds ?L f \<and> leadingBoundary ?L (startLine f) \<le> j
                  \<and> j \<le> trailingBoundary ?L (endLine f))"
    have h: "(inBounds ?L ?f \<and> leadingBoundary ?L (startLine ?f) \<le> j
              \<and> j \<le> trailingBoundary ?L (endLine ?f))
          \<longleftrightarrow> (a \<le> j \<and> j \<le> m)"
      by (simp only: hd1 hd2 hd3 simp_thms m_def a_def)
    have "T \<longleftrightarrow> (rest \<noteq> [] \<and> int (length ?P') - 1 \<le> j \<and> j < int (length ?L))"
      unfolding T_def using IH [THEN conjunct2, THEN conjunct2] by (rule spec)
    moreover have "int (length ?P') - 1 = m"
      by (simp add: m_def)
    moreover have len: "int (length ?L) = m + 1 + s"
      by (simp add: L2 m_def s_def)
    ultimately have t: "T \<longleftrightarrow> (rest \<noteq> [] \<and> m \<le> j \<and> j < m + 1 + s)"
      by simp
    have s0: "rest = [] \<Longrightarrow> s = 0" "0 \<le> s"
      by (simp_all add: blocksLines_def s_def)
    have am: "a \<le> m"
      by (simp add: a_def m_def)
    have "(\<exists>f\<in>set (?f # ?fs).
                  inBounds ?L f \<and> leadingBoundary ?L (startLine f) \<le> j
                  \<and> j \<le> trailingBoundary ?L (endLine f))
          \<longleftrightarrow> (a \<le> j \<and> j \<le> m) \<or> T"
      by (simp only: bex_Cons h T_def)
    also have "\<dots> \<longleftrightarrow> (a \<le> j \<and> j < m + 1 + s)"
      using t s0 am by (cases "rest = []") auto
    finally show ?thesis
      by (simp only: lay len a_def) simp
  qed
  show ?case unfolding b using 1 2 3 by blast
qed

lemma exchangeLoop_sorted:
  "\<forall>y\<in>set ys. startLine x \<le> startLine y \<Longrightarrow> exchangeLoop x ys = (x, ys)"
  by (induction ys) auto

lemma sortByStartLine_sorted: "sorted (map startLine xs) \<Longrightarrow> sortByStartLine xs = xs"
proof (induction xs)
  case Nil
  then show ?case by simp
next
  case (Cons x xs)
  then have "exchangeLoop x xs = (x, xs)"
    by (auto intro: exchangeLoop_sorted)
  then show ?case using Cons by simp
qed

lemma layoutPos_names: "map fst (layoutPos off bs) = map fst bs"
  by (induction off bs rule: layoutPos.induct) simp_all

lemma layoutPos_lower: "(n, s, e) \<in> set (layoutPos off bs) \<Longrightarrow> off < s"
  by (induction off bs rule: layoutPos.induct) auto

lemma layoutPos_sorted: "sorted (map (startLine \<circ> toFuncPos) (layoutPos off bs))"
proof (induction off bs rule: layoutPos.induct)
  case (1 offset)
  then show ?case by simp
next
  case (2 offset n C D rest)
  have "\<forall>p\<in>set (layoutPos (offset + int (length C) + int (length D) + 1) rest).
          offset + int (length C) \<le> startLine (toFuncPos p)"
  proof
    fix p
    assume p: "p \<in> set (layoutPos (offset + int (length C) + int (length D) + 1) rest)"
    obtain n' s e where "p = (n', s, e)" by (cases p)
    with p layoutPos_lower show "offset + int (length C) \<le> startLine (toFuncPos p)"
      by (fastforce simp: toFuncPos_def)
  qed
  then show ?case using 2 by (simp add: toFuncPos_def)
qed

lemma createSorted_layoutPos:
  "createSortedFuncPositions (layoutPos off bs) = map toFuncPos (layoutPos off bs)"
proof -
  have "(\<lambda>(n, s, e). \<lparr>name = n, startLine = s - 1, endLine = e - 1\<rparr>) = toFuncPos"
    by (auto simp: toFuncPos_def fun_eq_iff)
  then have "createSortedFuncPositions (layoutPos off bs)
      = sortByStartLine (map toFuncPos (layoutPos off bs))"
    by (simp add: createSortedFuncPositions_def)
  also have "\<dots> = map toFuncPos (layoutPos off bs)"
    by (rule sortByStartLine_sorted) (use layoutPos_sorted [of off bs] in simp)
  finally show ?thesis .
qed

lemma layout_separate:
  assumes H: "H = [] \<or> \<not> blankOrComment (last H)" and bs: "list_all blockOK bs"
    and ne: "bs \<noteq> []" and dist: "distinct (map fst bs)"
  defines "P \<equiv> H @ (if H = [] then [] else [[]])"
  shows "separateTestAndNonTestContent (P @ blocksLines bs) (layoutPos (int (length P)) bs)
         = Some (expectedBlocks (H \<noteq> []) bs, if H = [] then [] else H @ [[]])"
proof -
  let ?L = "P @ blocksLines bs"
  let ?pos = "layoutPos (int (length P)) bs"
  let ?fs = "map toFuncPos ?pos"
  have P: "prefixOK P"
  proof (cases "H = []")
    case True
    then show ?thesis by (simp add: P_def prefixOK_def)
  next
    case False
    then have "P = butlast H @ [last H, []]" "\<not> blankOrComment (last H)"
      using H by (simp_all add: P_def)
    then show ?thesis unfolding prefixOK_def by blast
  qed
  have PH: "(P \<noteq> []) = (H \<noteq> [])" "(if P = [] then 0 else int (length P) - 1) = int (length H)"
    by (simp_all add: P_def)
  note lb = layout_blocks [OF P bs]
  have blocks: "map (blockOf ?L) ?fs = expectedBlocks (H \<noteq> []) bs"
    using lb [THEN conjunct1] by (simp only: PH)
  have inb: "\<forall>f\<in>set ?fs. inBounds ?L f"
    using lb [THEN conjunct2, THEN conjunct1] .
  have cl: "(\<exists>f\<in>set ?fs. inBounds ?L f \<and> leadingBoundary ?L (startLine f) \<le> j
                  \<and> j \<le> trailingBoundary ?L (endLine f))
             \<longleftrightarrow> (int (length H) \<le> j \<and> j < int (length ?L))" for j
    using lb [THEN conjunct2, THEN conjunct2, rule_format, of j] ne by (simp only: PH simp_thms)
  have sorted: "createSortedFuncPositions ?pos = ?fs"
    by (rule createSorted_layoutPos)
  have mark: "markProcessedLines ?L ?fs
      = Some (\<lambda>j. int (length H) \<le> j \<and> j < int (length ?L))"
    by (simp only: markProcessedLines_eq cl)
  have "nths (H @ ((if H = [] then [] else [[]]) @ blocksLines bs))
          {i. \<not> (int (length H) \<le> int i \<and> int i < int (length ?L))} = H"
    by (rule nths_prefix) (auto simp: P_def)
  then have "nths ?L {i. \<not> (int (length H) \<le> int i \<and> int i < int (length ?L))} = H"
    by (simp add: P_def)
  then have rem: "collectNonTestLines ?L (\<lambda>j. int (length H) \<le> j \<and> j < int (length ?L))
      = (if H = [] then [] else H @ [[]])"
    by (simp only: collectNonTestLines_eq)
  have mo: "map_of ?pos (name f) = Some (startLine f + 1, endLine f + 1)" if "f \<in> set ?fs" for f
  proof -
    from that obtain p where "f = toFuncPos p" "p \<in> set ?pos"
      by auto
    then obtain n s e where f: "f = toFuncPos (n, s, e)" and m: "(n, s, e) \<in> set ?pos"
      by (cases p) auto
    have "distinct (map fst ?pos)"
      using dist by (simp add: layoutPos_names)
    then have "map_of ?pos n = Some (s, e)"
      using m by simp
    then show ?thesis by (simp add: f toFuncPos_def)
  qed
  have "extractFuncs ?L ?fs ?pos [] =
     Some ([] @ map (blockOf ?L)
                   (filter (\<lambda>f. startLine f \<ge> 0 \<and> startLine f < int (length ?L)) ?fs))"
    by (rule extractFuncs_eq) (use mo inb in \<open>auto simp: inBounds_def\<close>)
  moreover have "filter (\<lambda>f. startLine f \<ge> 0 \<and> startLine f < int (length ?L)) ?fs = ?fs"
    using inb by (auto simp: inBounds_def filter_id_conv)
  ultimately have ext: "extractAllTestFunctions ?L ?fs ?pos = Some (expectedBlocks (H \<noteq> []) bs)"
    using blocks by (simp add: extractAllTestFunctions_def)
  show ?thesis
    by (simp only: separateTestAndNonTestContent_def Let_def sorted mark ext rem option.case)
qed

lemma expectedBlocks_names: "map Name (expectedBlocks pad bs) = map fst bs"
  by (induction pad bs rule: expectedBlocks.induct) simp_all

lemma dropWhile_blank_block:
  assumes "blockOK (n, C, D)"
  shows "dropWhile blankLine ((if pad then [[]] else []) @ C @ D) = C @ D"
proof -
  have "C @ D \<noteq> []" "\<not> blankLine (hd (C @ D))"
    using assms by (cases C; simp add: blockOK_def)+
  then have "dropWhile blankLine (C @ D) = C @ D"
    by (cases "C @ D") simp_all
  then show ?thesis by simp
qed

lemma expectedBlocks_stripped:
  "list_all blockOK bs \<Longrightarrow>
   map (\<lambda>f. dropLeadingEmpty (Lines f)) (expectedBlocks pad bs) = map (\<lambda>(n, C, D). C @ D) bs"
proof (induction pad bs rule: expectedBlocks.induct)
  case (1 pad)
  then show ?case by simp
next
  case (2 pad n C D rest)
  then have "blockOK (n, C, D)" by simp
  from dropWhile_blank_block [OF this, of pad] 2 show ?case
    by (simp add: dropLeadingEmpty_eq)
qed

lemma blocksLines_separated:
  "bs \<noteq> [] \<Longrightarrow> blocksLines bs = separatedBlocks (map (\<lambda>(n, C, D). C @ D) bs) @ [[]]"
proof (induction bs)
  case Nil
  then show ?case by simp
next
  case (Cons b rest)
  obtain n C D where b: "b = (n, C, D)" by (cases b)
  show ?case
  proof (cases rest)
    case Nil
    then show ?thesis by (simp add: b blocksLines_def)
  next
    case (Cons b' rest')
    then have "blocksLines rest = separatedBlocks (map (\<lambda>(n, C, D). C @ D) rest) @ [[]]"
      using Cons.IH by simp
    moreover have "blocksLines (b # rest) = C @ D @ [[]] @ blocksLines rest"
      by (simp add: b blocksLines_def)
    ultimately show ?thesis using Cons by (simp add: b)
  qed
qed

lemma layout_output_lines:
  assumes H: "H = [] \<or> \<not> blankOrComment (last H)" and bs: "list_all blockOK bs"
    and ne: "bs \<noteq> []" and sorted: "sorted (map fst bs)"
  shows "outputLinesOf (expectedBlocks pad bs) (if H = [] then [] else H @ [[]])
         = H @ (if H = [] then [] else [[]]) @ separatedBlocks (map (\<lambda>(n, C, D). C @ D) bs)"
proof -
  have ss: "sortSlice (expectedBlocks pad bs) = expectedBlocks pad bs"
    unfolding sortSlice_def
    by (rule sort_key_id_if_sorted) (simp add: expectedBlocks_names sorted)
  have len: "length (expectedBlocks pad bs) > 0"
    using ne by (cases bs) auto
  have af: "appendFuncs 0 (expectedBlocks pad bs) out
      = out @ separatedBlocks (map (\<lambda>(n, C, D). C @ D) bs)" for out
    by (simp add: appendFuncs_eq expectedBlocks_stripped [OF bs])
  show ?thesis
  proof (cases "H = []")
    case True
    then show ?thesis
      by (simp add: outputLinesOf_def ss af)
  next
    case False
    then have "\<not> blankLine (last H)"
      using H blankLine_blankOrComment by blast
    then have "dropWhile blankLine (rev H) = rev H"
      using False by (cases H rule: rev_cases) simp_all
    then have "dropTrailingEmpty (H @ [[]]) = H"
      by (simp add: dropTrailingEmpty_eq)
    then show ?thesis
      using False len by (simp add: outputLinesOf_def ss af)
  qed
qed

lemma Split_no_sep: "c \<notin> set l \<Longrightarrow> Split l c = [l]"
  by (induction l) auto

lemma Split_append_sep: "c \<notin> set l \<Longrightarrow> Split (l @ c # rest) c = l # Split rest c"
  by (induction l) auto

lemma Split_Join:
  "ls \<noteq> [] \<Longrightarrow> \<forall>l\<in>set ls. c \<notin> set l \<Longrightarrow> Split (Join ls c) c = ls"
proof (induction ls)
  case Nil
  then show ?case by simp
next
  case (Cons l ls)
  show ?case
  proof (cases "ls = []")
    case True
    then show ?thesis using Cons.prems by (simp add: Split_no_sep)
  next
    case False
    then have "Join (l # ls) c = l @ c # Join ls c"
      by (rule Join_Cons)
    then show ?thesis
      using Cons False by (simp add: Split_append_sep)
  qed
qed

lemma Split_lines_no_sep: "\<forall>l\<in>set (Split s c). c \<notin> set l"
  by (induction s) (auto split: list.splits)

lemma Join_last:
  "ls \<noteq> [] \<Longrightarrow> last ls \<noteq> [] \<Longrightarrow> Join ls c \<noteq> [] \<and> last (Join ls c) = last (last ls)"
proof (induction ls)
  case Nil
  then show ?case by simp
next
  case (Cons l ls)
  show ?case
  proof (cases "ls = []")
    case True
    then show ?thesis using Cons.prems by simp
  next
    case False
    then have "Join (l # ls) c = l @ c # Join ls c"
      by (rule Join_Cons)
    then show ?thesis
      using Cons False by simp
  qed
qed

lemma HasSuffix_single: "HasSuffix s [c] \<longleftrightarrow> s \<noteq> [] \<and> last s = c"
proof (cases s rule: rev_cases)
  case Nil
  then show ?thesis by (simp add: HasSuffix_def)
next
  case (snoc ys y)
  then show ?thesis by (auto simp: HasSuffix_def)
qed

lemma BuildOutputContent_final_newline:
  assumes "outputLinesOf testFuncs nonTestLines = ls" "ls \<noteq> []" "last ls \<noteq> []"
    "newline \<notin> set (last ls)"
  shows "BuildOutputContent testFuncs nonTestLines = Join ls newline @ [newline]"
proof -
  have "last (Join ls newline) = last (last ls)" "Join ls newline \<noteq> []"
    using Join_last [OF assms(2,3)] by simp_all
  moreover have "last (last ls) \<noteq> newline"
    using assms(3,4) last_in_set by metis
  ultimately have "\<not> HasSuffix (Join ls newline) [newline]"
    by (simp add: HasSuffix_single)
  then show ?thesis
    by (simp add: BuildOutputContent_def assms(1))
qed

lemma separatedBlocks_last:
  "list_all blockOK bs \<Longrightarrow> bs \<noteq> [] \<Longrightarrow>
   separatedBlocks (map (\<lambda>(n, C, D). C @ D) bs) \<noteq> []
   \<and> \<not> blankOrComment (last (separatedBlocks (map (\<lambda>(n, C, D). C @ D) bs)))"
proof (induction bs)
  case Nil
  then show ?case by simp
next
  case (Cons b rest)
  obtain n C D where b: "b = (n, C, D)" by (cases b)
  have ok: "D \<noteq> []" "\<not> blankOrComment (last D)"
    using Cons.prems b by (simp_all add: blockOK_def)
  show ?case
  proof (cases rest)
    case Nil
    then show ?thesis using ok by (simp add: b)
  next
    case (Cons b' rest')
    then have "separatedBlocks (map (\<lambda>(n, C, D). C @ D) (b # rest))
        = C @ D @ [[]] @ separatedBlocks (map (\<lambda>(n, C, D). C @ D) rest)"
      by (simp add: b)
    moreover have "separatedBlocks (map (\<lambda>(n, C, D). C @ D) rest) \<noteq> []
        \<and> \<not> blankOrComment (last (separatedBlocks (map (\<lambda>(n, C, D). C @ D) rest)))"
      using Cons.IH Cons.prems Cons by simp
    ultimately show ?thesis by simp
  qed
qed

lemma not_blankOrComment_not_Nil: "\<not> blankOrComment l \<Longrightarrow> l \<noteq> []"
  by auto

lemma layout_fixed_point:
  assumes H: "H = [] \<or> \<not> blankOrComment (last H)" and bs: "list_all blockOK bs"
    and ne: "bs \<noteq> []" and dist: "distinct (map fst bs)" and sorted: "sorted (map fst bs)"
    and nonl: "\<forall>l\<in>set H \<union> set (blocksLines bs). newline \<notin> set l"
  defines "P \<equiv> H @ (if H = [] then [] else [[]])"
  defines "out \<equiv> P @ separatedBlocks (map (\<lambda>(n, C, D). C @ D) bs)"
  shows "reorderContent (Join out newline @ [newline]) (layoutPos (int (length P)) bs)
         = Some (Join out newline @ [newline])"
proof -
  let ?X = "separatedBlocks (map (\<lambda>(n, C, D). C @ D) bs)"
  have L: "P @ blocksLines bs = out @ [[]]"
    by (simp add: out_def blocksLines_separated [OF ne])
  have X: "?X \<noteq> []" "\<not> blankOrComment (last ?X)"
    using separatedBlocks_last [OF bs ne] by simp_all
  then have out: "out \<noteq> []" "last out = last ?X"
    by (simp_all add: out_def)
  have "set out \<subseteq> set (P @ blocksLines bs)"
    unfolding L by auto
  also have "\<dots> \<subseteq> insert [] (set H \<union> set (blocksLines bs))"
    by (auto simp: P_def)
  finally have nl: "\<forall>l\<in>set out. newline \<notin> set l"
    using nonl by auto
  have "Split (Join out newline @ [newline]) newline = Split (Join out newline) newline @ [[]]"
    by (rule Split_snoc_sep)
  also have "\<dots> = out @ [[]]"
    using Split_Join [OF out(1) nl] by simp
  finally have split: "Split (Join out newline @ [newline]) newline = P @ blocksLines bs"
    using L by simp
  have sep: "separateTestAndNonTestContent (P @ blocksLines bs) (layoutPos (int (length P)) bs)
         = Some (expectedBlocks (H \<noteq> []) bs, if H = [] then [] else H @ [[]])"
    unfolding P_def by (rule layout_separate [OF H bs ne dist])
  have ol: "outputLinesOf (expectedBlocks (H \<noteq> []) bs) (if H = [] then [] else H @ [[]]) = out"
    unfolding out_def P_def using layout_output_lines [OF H bs ne sorted] by simp
  have "last out \<noteq> []"
    using X(2) out(2) not_blankOrComment_not_Nil by metis
  moreover have "newline \<notin> set (last out)"
    using nl out(1) by simp
  ultimately have "BuildOutputContent (expectedBlocks (H \<noteq> []) bs)
                     (if H = [] then [] else H @ [[]]) = Join out newline @ [newline]"
    using BuildOutputContent_final_newline [OF ol out(1)] by simp
  then show ?thesis
    by (simp add: reorderContent_def split sep)
qed

lemma drop_take_split:
  "a \<le> b \<Longrightarrow> b \<le> c \<Longrightarrow> drop a (take c xs) = drop a (take b xs) @ drop b (take c xs)"
proof -
  assume ab: "a \<le> b" and bc: "b \<le> c"
  have "take c xs = take b (take c xs) @ drop b (take c xs)"
    by (rule append_take_drop_id [symmetric])
  also have "take b (take c xs) = take b xs"
    using bc by (simp add: min.absorb1)
  finally have "take c xs = take b xs @ drop b (take c xs)" .
  then have "drop a (take c xs) = drop a (take b xs @ drop b (take c xs))"
    by (rule arg_cong)
  also have "\<dots> = drop a (take b xs) @ drop (a - length (take b xs)) (drop b (take c xs))"
    by simp
  also have "drop (a - length (take b xs)) (drop b (take c xs)) = drop b (take c xs)"
  proof (cases "b \<le> length xs")
    case True
    then show ?thesis using ab by simp
  next
    case False
    then show ?thesis by simp
  qed
  finally show ?thesis .
qed

lemma drop_takeWhile_rev:
  "drop (length xs - length (takeWhile Q (rev xs))) xs = rev (takeWhile Q (rev xs))"
proof -
  have "rev xs = takeWhile Q (rev xs) @ dropWhile Q (rev xs)"
    by simp
  then have "xs = rev (dropWhile Q (rev xs)) @ rev (takeWhile Q (rev xs))"
    by (metis rev_append rev_rev_ident)
  moreover have "length (rev (dropWhile Q (rev xs))) = length xs - length (takeWhile Q (rev xs))"
    by (metis calculation length_append length_rev add_diff_cancel_right')
  ultimately show ?thesis
    by (metis append_eq_conv_conj)
qed

lemma leading_run:
  assumes "0 \<le> s" "s \<le> int (length lines)"
  shows "drop (nat (leadingBoundary lines s)) (take (nat s) lines)
           = rev (takeWhile blankOrComment (rev (take (nat s) lines)))"
proof -
  let ?xs = "take (nat s) lines"
  have len: "length ?xs = nat s"
    using assms by simp
  have "length (takeWhile blankOrComment (rev ?xs)) \<le> nat s"
    using length_takeWhile_le [of blankOrComment "rev ?xs"] len by simp
  then have "nat (leadingBoundary lines s)
      = length ?xs - length (takeWhile blankOrComment (rev ?xs))"
    using assms len by (simp add: leadingBoundary_def nat_diff_distrib')
  then show ?thesis
    by (simp only: drop_takeWhile_rev)
qed

lemma blockOf_split:
  assumes "inBounds lines f" "startLine f \<le> endLine f"
  shows "Lines (blockOf lines f)
         = drop (nat (leadingBoundary lines (startLine f))) (take (nat (startLine f)) lines)
           @ drop (nat (startLine f)) (take (nat (endLine f + 1)) lines)"
proof -
  have "0 \<le> startLine f"
    using assms by (simp add: inBounds_def)
  then have "leadingBoundary lines (startLine f) \<le> startLine f"
    using leadingBoundary_bounds [of "startLine f" lines] by simp
  then have "nat (leadingBoundary lines (startLine f)) \<le> nat (startLine f)"
    by (rule nat_mono)
  moreover have "nat (startLine f) \<le> nat (endLine f + 1)"
    using assms by simp
  ultimately have "drop (nat (leadingBoundary lines (startLine f))) (take (nat (endLine f + 1)) lines)
      = drop (nat (leadingBoundary lines (startLine f))) (take (nat (startLine f)) lines)
        @ drop (nat (startLine f)) (take (nat (endLine f + 1)) lines)"
    by (rule drop_take_split)
  then show ?thesis
    by (simp add: blockOf_def)
qed

lemma declaration_lines:
  assumes "inBounds lines f" "startLine f \<le> endLine f"
  defines "D \<equiv> drop (nat (startLine f)) (take (nat (endLine f + 1)) lines)"
  shows "D \<noteq> []" and "hd D = lines ! nat (startLine f)" and "last D = lines ! nat (endLine f)"
    and "int (length D) = endLine f - startLine f + 1"
proof -
  have b: "0 \<le> startLine f" "endLine f < int (length lines)"
    using assms by (simp_all add: inBounds_def)
  have len: "length (take (nat (endLine f + 1)) lines) = nat (endLine f + 1)"
    using b assms(2) by simp
  show l: "int (length D) = endLine f - startLine f + 1"
    using b assms(2) by (simp add: D_def)
  then show ne: "D \<noteq> []"
    using assms(2) by auto
  show "hd D = lines ! nat (startLine f)"
    using b assms(2) by (simp add: D_def hd_drop_conv_nth)
  have "nat (startLine f) < length (take (nat (endLine f + 1)) lines)"
    using len b assms(2) by simp
  then have "last D = last (take (nat (endLine f + 1)) lines)"
    unfolding D_def by (rule last_drop)
  also have "\<dots> = take (nat (endLine f + 1)) lines ! (nat (endLine f + 1) - 1)"
    using len b assms(2) by (subst last_conv_nth) auto
  also have "\<dots> = lines ! nat (endLine f)"
    using b assms(2) by (simp add: nat_add_distrib)
  finally show "last D = lines ! nat (endLine f)" .
qed

lemma toBlock_OK:
  assumes "inBounds lines f" "startLine f \<le> endLine f"
    and "\<not> blankLine (lines ! nat (startLine f))"
    and "\<not> blankOrComment (lines ! nat (endLine f))"
  shows "blockOK (toBlock lines f)"
proof -
  let ?pre = "drop (nat (leadingBoundary lines (startLine f))) (take (nat (startLine f)) lines)"
  let ?C = "dropWhile blankLine ?pre"
  let ?D = "drop (nat (startLine f)) (take (nat (endLine f + 1)) lines)"
  note d = declaration_lines [OF assms(1,2)]
  have "?pre = rev (takeWhile blankOrComment (rev (take (nat (startLine f)) lines)))"
    by (rule leading_run) (use assms(1) in \<open>simp_all add: inBounds_def\<close>)
  then have "set ?pre = set (takeWhile blankOrComment (rev (take (nat (startLine f)) lines)))"
    by (simp only: set_rev)
  then have "\<forall>l\<in>set ?pre. blankOrComment l"
    by (auto dest: set_takeWhileD)
  then have "\<forall>l\<in>set ?C. blankOrComment l"
    by (auto dest: set_dropWhileD)
  moreover have "?C = [] \<or> \<not> blankLine (hd ?C)"
    using hd_dropWhile [of blankLine ?pre] by blast
  ultimately show ?thesis
    using d assms(3,4) by (simp add: toBlock_def blockOK_def list_all_iff)
qed

lemma stripped_blockOf:
  assumes "inBounds lines f" "startLine f \<le> endLine f"
    and "\<not> blankLine (lines ! nat (startLine f))"
  shows "dropLeadingEmpty (Lines (blockOf lines f)) = (case toBlock lines f of (n, C, D) \<Rightarrow> C @ D)"
proof -
  let ?pre = "drop (nat (leadingBoundary lines (startLine f))) (take (nat (startLine f)) lines)"
  let ?D = "drop (nat (startLine f)) (take (nat (endLine f + 1)) lines)"
  note d = declaration_lines [OF assms(1,2)]
  obtain y ys where D: "?D = y # ys" and y: "\<not> blankLine y"
    using d(1,2) assms(3) by (cases ?D) auto
  have "dropWhile blankLine (?pre @ y # ys) = dropWhile blankLine ?pre @ y # ys"
    using y by (rule dropWhile_append3)
  then show ?thesis
    by (simp add: dropLeadingEmpty_eq blockOf_split [OF assms(1,2)] toBlock_def D)
qed

lemma Name_blockOf [simp]: "Name (blockOf lines f) = name f"
  by (simp add: blockOf_def)

lemma fst_toBlock [simp]: "fst (toBlock lines f) = name f"
  by (simp add: toBlock_def)

lemma createSorted_names:
  "mset (map name (createSortedFuncPositions testFuncPos)) = mset (map fst testFuncPos)"
proof -
  have "mset (createSortedFuncPositions testFuncPos)
      = mset (map (\<lambda>(n, s, e). \<lparr>name = n, startLine = s - 1, endLine = e - 1\<rparr>) testFuncPos)"
    by (simp add: createSortedFuncPositions_def mset_sortByStartLine)
  then have "image_mset name (mset (createSortedFuncPositions testFuncPos))
      = image_mset name
          (mset (map (\<lambda>(n, s, e). \<lparr>name = n, startLine = s - 1, endLine = e - 1\<rparr>) testFuncPos))"
    by simp
  also have "\<dots> = mset (map fst testFuncPos)"
    by (simp add: multiset.map_comp comp_def case_prod_beta)
  finally show ?thesis by simp
qed

lemma sortSlice_blocks:
  assumes "distinct (map name fs)"
  shows "sortSlice (map (blockOf lines) fs) = map (blockOf lines) (sort_key name fs)"
  unfolding sortSlice_def
proof (rule sort_key_inj_key_eq)
  show "mset (map (blockOf lines) fs) = mset (map (blockOf lines) (sort_key name fs))"
    by simp
  have inj: "inj_on name (set fs)"
    using assms by (simp add: distinct_map)
  show "inj_on Name (set (map (blockOf lines) fs))"
  proof (rule inj_onI)
    fix x y
    assume "x \<in> set (map (blockOf lines) fs)" "y \<in> set (map (blockOf lines) fs)"
      and eq: "Name x = Name y"
    then obtain f g where fg: "f \<in> set fs" "g \<in> set fs" "x = blockOf lines f" "y = blockOf lines g"
      by auto
    with eq have "name f = name g" by simp
    with inj fg have "f = g" by (auto dest: inj_onD)
    with fg show "x = y" by simp
  qed
  have "map Name (map (blockOf lines) (sort_key name fs)) = map name (sort_key name fs)"
    by simp
  then show "sorted (map Name (map (blockOf lines) (sort_key name fs)))"
    by (simp only: sorted_sort_key)
qed

lemma relocate_layout:
  assumes "\<And>f. f \<in> set fs \<Longrightarrow>
      map_of testFuncPos (name f) = Some (startLine f + 1, endLine f + 1)
      \<and> inBounds lines f \<and> startLine f \<le> endLine f
      \<and> \<not> blankLine (lines ! nat (startLine f))"
  shows "relocate testFuncPos off (map (blockOf lines) fs) = layoutPos off (map (toBlock lines) fs)"
  using assms
proof (induction fs arbitrary: off)
  case Nil
  then show ?case by simp
next
  case (Cons f fs)
  have f: "map_of testFuncPos (name f) = Some (startLine f + 1, endLine f + 1)"
    "inBounds lines f" "startLine f \<le> endLine f" "\<not> blankLine (lines ! nat (startLine f))"
    using Cons.prems [of f] by simp_all
  obtain n C D where b: "toBlock lines f = (n, C, D)"
    by (cases "toBlock lines f")
  have n: "n = name f" and D: "D = drop (nat (startLine f)) (take (nat (endLine f + 1)) lines)"
    using b by (simp_all add: toBlock_def)
  have len: "int (length D) = endLine f - startLine f + 1"
    unfolding D by (rule declaration_lines(4) [OF f(2,3)])
  have strip: "dropLeadingEmpty (Lines (blockOf lines f)) = C @ D"
    using stripped_blockOf [OF f(2,3,4)] b by simp
  have IH: "relocate testFuncPos (off + int (length C) + int (length D) + 1) (map (blockOf lines) fs)
      = layoutPos (off + int (length C) + int (length D) + 1) (map (toBlock lines) fs)"
    by (rule Cons.IH) (simp add: Cons.prems)
  have "relocate testFuncPos off (map (blockOf lines) (f # fs))
      = (name f, off + int (length C) + int (length D) - (endLine f - startLine f),
           off + int (length C) + int (length D))
        # relocate testFuncPos (off + int (length C) + int (length D) + 1) (map (blockOf lines) fs)"
    by (simp add: f(1) strip Let_def add.assoc)
  also have "\<dots> = (name f, off + int (length C) + 1, off + int (length C) + int (length D))
        # layoutPos (off + int (length C) + int (length D) + 1) (map (toBlock lines) fs)"
    by (simp only: IH) (simp add: len)
  also have "\<dots> = layoutPos off (map (toBlock lines) (f # fs))"
    by (simp add: b n)
  finally show ?case .
qed

lemma layout_out_props:
  assumes bs: "list_all blockOK bs" and ne: "bs \<noteq> []"
    and nonl: "\<forall>l\<in>set H \<union> set (blocksLines bs). newline \<notin> set l"
  defines "out \<equiv> (H @ (if H = [] then [] else [[]])) @ separatedBlocks (map (\<lambda>(n, C, D). C @ D) bs)"
  shows "out \<noteq> []" and "last out \<noteq> []" and "newline \<notin> set (last out)"
proof -
  let ?X = "separatedBlocks (map (\<lambda>(n, C, D). C @ D) bs)"
  have X: "?X \<noteq> []" "\<not> blankOrComment (last ?X)"
    using separatedBlocks_last [OF bs ne] by simp_all
  then show out: "out \<noteq> []"
    by (simp add: out_def)
  have lo: "last out = last ?X"
    using X(1) by (simp add: out_def)
  then show "last out \<noteq> []"
    using X(2) not_blankOrComment_not_Nil by metis
  have "last ?X \<in> set ?X"
    using X(1) by simp
  then have "last ?X \<in> set (blocksLines bs)"
    by (simp add: blocksLines_separated [OF ne])
  then show "newline \<notin> set (last out)"
    using nonl lo by simp
qed

lemma separate_blocks:
  assumes "validPositions lines testFuncPos" "distinct (map fst testFuncPos)"
  shows "separateTestAndNonTestContent lines testFuncPos =
     Some (map (blockOf lines) (createSortedFuncPositions testFuncPos),
           collectNonTestLines lines
             (\<lambda>j. \<exists>f\<in>set (createSortedFuncPositions testFuncPos). inBounds lines f
                    \<and> leadingBoundary lines (startLine f) \<le> j
                    \<and> j \<le> trailingBoundary lines (endLine f)))"
proof -
  let ?fs = "createSortedFuncPositions testFuncPos"
  note v = sorted_positions_valid [OF assms]
  have "extractFuncs lines ?fs testFuncPos [] =
     Some ([] @ map (blockOf lines)
                   (filter (\<lambda>f. startLine f \<ge> 0 \<and> startLine f < int (length lines)) ?fs))"
    by (rule extractFuncs_eq) (use v in \<open>auto simp: inBounds_def\<close>)
  moreover have "filter (\<lambda>f. startLine f \<ge> 0 \<and> startLine f < int (length lines)) ?fs = ?fs"
    using v(2) by (auto simp: inBounds_def filter_id_conv)
  ultimately have ext: "extractAllTestFunctions lines ?fs testFuncPos
      = Some (map (blockOf lines) ?fs)"
    by (simp add: extractAllTestFunctions_def)
  show ?thesis
    by (simp only: separateTestAndNonTestContent_def Let_def markProcessedLines_eq ext option.case)
qed

lemma set_collectNonTestLines: "set (collectNonTestLines lines p) \<subseteq> insert [] (set lines)"
  by (auto simp: collectNonTestLines_eq dest: in_set_nthsD)

lemma set_dropTrailingEmpty: "set (dropTrailingEmpty xs) \<subseteq> set xs"
  by (auto simp: dropTrailingEmpty_eq dest: set_dropWhileD)

lemma set_toBlock:
  "toBlock lines f = (n, C, D) \<Longrightarrow> set C \<subseteq> set lines \<and> set D \<subseteq> set lines"
  by (auto simp: toBlock_def dest!: set_dropWhileD in_set_dropD in_set_takeD)

lemma set_blocksLines:
  "set (blocksLines (map (toBlock lines) fs)) \<subseteq> insert [] (set lines)"
proof (induction fs)
  case Nil
  then show ?case by (simp add: blocksLines_def)
next
  case (Cons f fs)
  obtain n C D where b: "toBlock lines f = (n, C, D)"
    by (cases "toBlock lines f")
  have "blocksLines (map (toBlock lines) (f # fs))
      = C @ D @ [[]] @ blocksLines (map (toBlock lines) fs)"
    by (simp add: blocksLines_def b)
  then show ?case
    using set_toBlock [OF b] Cons by auto
qed

lemma reorderContent_perm:
  assumes valid: "validPositions (Split content newline) testFuncPos"
    and dist: "distinct (map fst testFuncPos)"
    and perm: "mset testFuncPos' = mset testFuncPos"
  shows "reorderContent content testFuncPos' = reorderContent content testFuncPos"
proof -
  let ?lines = "Split content newline"
  let ?fs = "createSortedFuncPositions testFuncPos"
  let ?fs' = "createSortedFuncPositions testFuncPos'"
  have set_eq: "set testFuncPos' = set testFuncPos"
    using perm by (rule mset_eq_setD)
  have valid': "validPositions ?lines testFuncPos'"
    using valid set_eq by (simp add: validPositions_def list_all_iff)
  have "mset (map fst testFuncPos') = mset (map fst testFuncPos)"
    using perm by simp
  then have dist': "distinct (map fst testFuncPos')"
    using dist by (metis mset_eq_imp_distinct_iff)
  have sfs: "set ?fs' = set ?fs"
    by (simp add: set_createSortedFuncPositions set_eq)
  have mfs: "mset ?fs' = mset ?fs"
    using perm by (simp add: createSortedFuncPositions_def mset_sortByStartLine)
  have dn: "distinct (map name ?fs)" "distinct (map name ?fs')"
    using createSorted_names [of testFuncPos] createSorted_names [of testFuncPos'] dist dist'
    by (metis mset_eq_imp_distinct_iff)+
  have "sort_key name ?fs' = sort_key name ?fs"
  proof (rule sort_key_inj_key_eq)
    show "mset ?fs' = mset (sort_key name ?fs)"
      using mfs by simp
    show "inj_on name (set ?fs')"
      using dn(2) by (simp add: distinct_map)
    show "sorted (map name (sort_key name ?fs))"
      by (rule sorted_sort_key)
  qed
  then have ss: "sortSlice (map (blockOf ?lines) ?fs') = sortSlice (map (blockOf ?lines) ?fs)"
    by (simp add: sortSlice_blocks dn)
  have "BuildOutputContent (map (blockOf ?lines) ?fs') nt
      = BuildOutputContent (map (blockOf ?lines) ?fs) nt" for nt
    by (simp add: BuildOutputContent_def outputLinesOf_def ss)
  then show ?thesis
    by (simp add: reorderContent_def separate_blocks [OF valid dist]
        separate_blocks [OF valid' dist'] sfs)
qed

lemma layoutPos_start_le_end:
  "list_all blockOK bs \<Longrightarrow> (n, s, e) \<in> set (layoutPos off bs) \<Longrightarrow> s \<le> e"
proof (induction off bs rule: layoutPos.induct)
  case (1 offset)
  then show ?case by simp
next
  case (2 offset n' C D rest)
  then have "D \<noteq> []" by (simp add: blockOK_def)
  then have d: "1 \<le> int (length D)" by (cases D) simp_all
  from "2.prems" have "(n, s, e) = (n', offset + int (length C) + 1,
                           offset + int (length C) + int (length D))
      \<or> (n, s, e) \<in> set (layoutPos (offset + int (length C) + int (length D) + 1) rest)"
    by simp
  then show ?case
  proof
    assume "(n, s, e) = (n', offset + int (length C) + 1,
                           offset + int (length C) + int (length D))"
    then show ?thesis using d by simp
  next
    assume "(n, s, e) \<in> set (layoutPos (offset + int (length C) + int (length D) + 1) rest)"
    then show ?thesis using "2.IH" "2.prems"(1) by simp
  qed
qed

lemma layout_valid:
  assumes "prefixOK P" "list_all blockOK bs"
  shows "validPositions (P @ blocksLines bs) (layoutPos (int (length P)) bs)"
  unfolding validPositions_def list_all_iff
proof
  fix p
  assume p: "p \<in> set (layoutPos (int (length P)) bs)"
  obtain n s e where pe: "p = (n, s, e)" by (cases p)
  have "toFuncPos p \<in> set (map toFuncPos (layoutPos (int (length P)) bs))"
    using p by simp
  then have "inBounds (P @ blocksLines bs) (toFuncPos p)"
    using layout_blocks [OF assms, THEN conjunct2, THEN conjunct1] by blast
  moreover have "s \<le> e"
    using layoutPos_start_le_end [OF assms(2)] p pe by blast
  ultimately show "case p of (n, s, e) \<Rightarrow> 1 \<le> s \<and> s \<le> e \<and> e \<le> int (length (P @ blocksLines bs))"
    by (simp add: pe toFuncPos_def inBounds_def)
qed

lemma layout_declarationText:
  "(n, s, e) \<in> set (layoutPos (int (length P)) bs) \<Longrightarrow>
   \<exists>C D. (n, C, D) \<in> set bs \<and> declarationText (P @ blocksLines bs) s e = D"
proof (induction bs arbitrary: P)
  case Nil
  then show ?case by simp
next
  case (Cons b rest)
  obtain n' C D where b: "b = (n', C, D)" by (cases b)
  let ?P' = "P @ C @ D @ [[]]"
  have L: "P @ blocksLines (b # rest) = ?P' @ blocksLines rest"
    by (simp add: blocksLines_def b)
  have off: "int (length P) + int (length C) + int (length D) + 1 = int (length ?P')"
    by simp
  from Cons.prems have "(n, s, e) = (n', int (length P) + int (length C) + 1,
                           int (length P) + int (length C) + int (length D))
      \<or> (n, s, e) \<in> set (layoutPos (int (length ?P')) rest)"
    unfolding b layoutPos.simps off by simp
  then show ?case
  proof
    assume "(n, s, e) = (n', int (length P) + int (length C) + 1,
                           int (length P) + int (length C) + int (length D))"
    then have eq: "n = n'" "nat (s - 1) = length P + length C"
        "nat e = length P + length C + length D"
      by auto
    have "declarationText (P @ blocksLines (b # rest)) s e = D"
      unfolding declarationText_def eq by (simp add: blocksLines_def b)
    then show ?thesis using eq(1) b by auto
  next
    assume "(n, s, e) \<in> set (layoutPos (int (length ?P')) rest)"
    from Cons.IH [OF this] show ?thesis
      unfolding L by auto
  qed
qed

lemma prefixOK_header:
  assumes "H = [] \<or> \<not> blankOrComment (last H)"
  shows "prefixOK (H @ (if H = [] then [] else [[]]))"
proof (cases "H = []")
  case True
  then show ?thesis by (simp add: prefixOK_def)
next
  case False
  then have "H @ (if H = [] then [] else [[]]) = butlast H @ [last H, []]"
    "\<not> blankOrComment (last H)"
    using assms by simp_all
  then show ?thesis unfolding prefixOK_def by blast
qed

lemma layout_split:
  assumes bs: "list_all blockOK bs" and ne: "bs \<noteq> []"
    and nonl: "\<forall>l\<in>set H \<union> set (blocksLines bs). newline \<notin> set l"
  shows "Split (Join ((H @ (if H = [] then [] else [[]]))
                        @ separatedBlocks (map (\<lambda>(n, C, D). C @ D) bs)) newline @ [newline])
           newline
         = (H @ (if H = [] then [] else [[]])) @ blocksLines bs"
proof -
  let ?P = "H @ (if H = [] then [] else [[]])"
  let ?out = "?P @ separatedBlocks (map (\<lambda>(n, C, D). C @ D) bs)"
  have L: "?P @ blocksLines bs = ?out @ [[]]"
    by (simp add: blocksLines_separated [OF ne])
  have out: "?out \<noteq> []"
    using separatedBlocks_last [OF bs ne] by simp
  have "set ?out \<subseteq> set (?P @ blocksLines bs)"
    unfolding L by auto
  also have "\<dots> \<subseteq> insert [] (set H \<union> set (blocksLines bs))"
    by auto
  finally have nl: "\<forall>l\<in>set ?out. newline \<notin> set l"
    using nonl by auto
  have "Split (Join ?out newline @ [newline]) newline = Split (Join ?out newline) newline @ [[]]"
    by (rule Split_snoc_sep)
  also have "\<dots> = ?out @ [[]]"
    using Split_Join [OF out nl] by simp
  finally show ?thesis
    using L by simp
qed

text \<open>
  The condition on the remainder cannot be dropped. A comment at the end of the remainder
  stays in the remainder in the first run and is taken into the block of the first
  emitted function in the second, which moves the separating empty line.
\<close>

lemma trailing_comment_changes_owner:
  "validPositions
     (Split (Join [''package main'', [], ''func Test_a() {}'', [], ''func helper() {}'',
                   ''// trailing comment''] newline @ [newline]) newline)
     [(''Test_a'', 3, 3)]
   \<and> declarationsAreCode
     (Split (Join [''package main'', [], ''func Test_a() {}'', [], ''func helper() {}'',
                   ''// trailing comment''] newline @ [newline]) newline)
     [(''Test_a'', 3, 3)]
   \<and> \<not> remainderEndsInCode
     (Split (Join [''package main'', [], ''func Test_a() {}'', [], ''func helper() {}'',
                   ''// trailing comment''] newline @ [newline]) newline)
     [(''Test_a'', 3, 3)]
   \<and> reorderContent
     (Join [''package main'', [], ''func Test_a() {}'', [], ''func helper() {}'',
            ''// trailing comment''] newline @ [newline])
     [(''Test_a'', 3, 3)]
     = Some (Join [''package main'', ''func helper() {}'', ''// trailing comment'', [],
                   ''func Test_a() {}''] newline @ [newline])
   \<and> outputPositions
     (Split (Join [''package main'', [], ''func Test_a() {}'', [], ''func helper() {}'',
                   ''// trailing comment''] newline @ [newline]) newline)
     [(''Test_a'', 3, 3)] = [(''Test_a'', 5, 5)]
   \<and> reorderContent
     (Join [''package main'', ''func helper() {}'', ''// trailing comment'', [],
            ''func Test_a() {}''] newline @ [newline])
     [(''Test_a'', 5, 5)]
     = Some (Join [''package main'', ''func helper() {}'', [], ''// trailing comment'', [],
                   ''func Test_a() {}''] newline @ [newline])"
  by code_simp

text \<open>
  The transformation run twice on given positions. Take a file with at least one test
  function, in which every declaration begins with a non-blank line and ends with a line
  that is neither blank nor a comment, and whose remainder does not end with a comment.
  Then the first run writes every declaration on its lines of \<open>outputPositions\<close>, which
  has one entry for each name, these lines lie inside the output, and a run on the output
  with these positions, in any order in which the map may hand them out, gives that
  output again.
\<close>

lemma reorderContent_twice:
  assumes valid: "validPositions (Split content newline) testFuncPos"
    and dist: "distinct (map fst testFuncPos)"
    and some: "testFuncPos \<noteq> []"
    and code: "declarationsAreCode (Split content newline) testFuncPos"
    and rem: "remainderEndsInCode (Split content newline) testFuncPos"
  shows "\<exists>output. reorderContent content testFuncPos = Some output
     \<and> (\<forall>testFuncPos'.
            mset testFuncPos' = mset (outputPositions (Split content newline) testFuncPos) \<longrightarrow>
            reorderContent output testFuncPos' = Some output)
     \<and> mset (map fst (outputPositions (Split content newline) testFuncPos))
           = mset (map fst testFuncPos)
     \<and> validPositions (Split output newline) (outputPositions (Split content newline) testFuncPos)
     \<and> (\<forall>(n, s', e')\<in>set (outputPositions (Split content newline) testFuncPos).
            \<exists>s e. (n, s, e) \<in> set testFuncPos
              \<and> declarationText (Split output newline) s' e'
                  = declarationText (Split content newline) s e)"
proof -
  let ?lines = "Split content newline"
  let ?fs = "createSortedFuncPositions testFuncPos"
  let ?tfs = "map (blockOf ?lines) ?fs"
  define nt where "nt = collectNonTestLines ?lines
             (\<lambda>j. \<exists>f\<in>set ?fs. inBounds ?lines f
                    \<and> leadingBoundary ?lines (startLine f) \<le> j
                    \<and> j \<le> trailingBoundary ?lines (endLine f))"
  define fsN where "fsN = sort_key name ?fs"
  define bs where "bs = map (toBlock ?lines) fsN"
  define H where "H = dropTrailingEmpty nt"
  define P where "P = H @ (if H = [] then [] else [[]])"
  define out where "out = P @ separatedBlocks (map (\<lambda>(n, C, D). C @ D) bs)"
  have sep: "separateTestAndNonTestContent ?lines testFuncPos = Some (?tfs, nt)"
    unfolding nt_def by (rule separate_blocks [OF valid dist])
  note v = sorted_positions_valid [OF valid dist]
  have setN: "set fsN = set ?fs"
    by (simp add: fsN_def)
  have facts: "map_of testFuncPos (name f) = Some (startLine f + 1, endLine f + 1)
      \<and> inBounds ?lines f \<and> startLine f \<le> endLine f
      \<and> \<not> blankLine (?lines ! nat (startLine f))
      \<and> \<not> blankOrComment (?lines ! nat (endLine f))" if "f \<in> set fsN" for f
  proof -
    have f: "f \<in> set ?fs" using that setN by simp
    then obtain n s e where fe: "f = \<lparr>name = n, startLine = s - 1, endLine = e - 1\<rparr>"
      and m: "(n, s, e) \<in> set testFuncPos"
      by (auto simp: set_createSortedFuncPositions)
    have "\<not> blankLine (?lines ! nat (s - 1)) \<and> \<not> blankOrComment (?lines ! nat (e - 1))"
      using code m by (auto simp: declarationsAreCode_def list_all_iff)
    then show ?thesis
      using v [OF f] fe by simp
  qed
  have dn: "distinct (map name ?fs)"
    using createSorted_names [of testFuncPos] dist by (metis mset_eq_imp_distinct_iff)
  have ss: "sortSlice ?tfs = map (blockOf ?lines) fsN"
    unfolding fsN_def by (rule sortSlice_blocks [OF dn])
  have fs_ne: "?fs \<noteq> []"
    using some by (metis createSorted_names mset_zero_iff map_is_Nil_conv)
  then have fsN_ne: "fsN \<noteq> []" and bs_ne: "bs \<noteq> []"
    using setN by (auto simp: bs_def)
  have bs_ok: "list_all blockOK bs"
    unfolding bs_def list_all_iff using facts by (auto intro: toBlock_OK)
  have names: "map fst bs = map name fsN"
    by (simp add: bs_def comp_def)
  have bs_sorted: "sorted (map fst bs)"
    unfolding names fsN_def by (rule sorted_sort_key)
  have "mset (map name fsN) = mset (map name ?fs)"
    by (simp add: fsN_def)
  then have bs_dist: "distinct (map fst bs)"
    unfolding names using dn by (metis mset_eq_imp_distinct_iff)
  have remc: "nt = [] \<or> (H \<noteq> [] \<and> \<not> blankOrComment (last H))"
    using rem by (simp add: remainderEndsInCode_def sep H_def)
  have H0: "nt = [] \<Longrightarrow> H = []"
    by (simp add: H_def dropTrailingEmpty_eq)
  have Hc: "H = [] \<or> \<not> blankOrComment (last H)"
    using remc H0 by blast
  have Hnt: "(H = []) = (nt = [])"
    using remc H0 by blast
  have stripped: "map (\<lambda>f. dropLeadingEmpty (Lines f)) (sortSlice ?tfs)
      = map (\<lambda>(n, C, D). C @ D) bs"
    unfolding ss bs_def map_map comp_def
    by (rule map_cong [OF refl]) (use facts in \<open>simp add: stripped_blockOf\<close>)
  have "length (sortSlice ?tfs) > 0"
    using fsN_ne by (simp add: ss)
  then have ol: "outputLinesOf ?tfs nt = out"
    using stripped Hnt
    by (simp add: outputLinesOf_def Let_def appendFuncs_eq out_def P_def H_def
        dropTrailingEmpty.simps [of "[]"])
  have linesnl: "\<forall>l\<in>set ?lines. newline \<notin> set l"
    by (rule Split_lines_no_sep)
  have "set H \<subseteq> insert [] (set ?lines)"
    unfolding H_def nt_def using set_dropTrailingEmpty set_collectNonTestLines by blast
  moreover have "set (blocksLines bs) \<subseteq> insert [] (set ?lines)"
    unfolding bs_def by (rule set_blocksLines)
  ultimately have nonl: "\<forall>l\<in>set H \<union> set (blocksLines bs). newline \<notin> set l"
    using linesnl by auto
  have props: "out \<noteq> []" "last out \<noteq> []" "newline \<notin> set (last out)"
    unfolding out_def P_def by (rule layout_out_props [OF bs_ok bs_ne nonl])+
  have build: "BuildOutputContent ?tfs nt = Join out newline @ [newline]"
    by (rule BuildOutputContent_final_newline [OF ol props])
  have run1: "reorderContent content testFuncPos = Some (Join out newline @ [newline])"
    by (simp add: reorderContent_def sep build)
  have "int (length P) = (if nt = [] then 0 else int (length H) + 1)"
    using Hnt by (simp add: P_def)
  then have "outputPositions ?lines testFuncPos
      = relocate testFuncPos (int (length P)) (map (blockOf ?lines) fsN)"
    by (simp add: outputPositions_def sep ss H_def)
  also have "\<dots> = layoutPos (int (length P)) bs"
    unfolding bs_def by (rule relocate_layout) (use facts in simp)
  finally have pos2: "outputPositions ?lines testFuncPos = layoutPos (int (length P)) bs" .
  have run2: "reorderContent (Join out newline @ [newline]) (layoutPos (int (length P)) bs)
         = Some (Join out newline @ [newline])"
    unfolding out_def P_def
    by (rule layout_fixed_point [OF Hc bs_ok bs_ne bs_dist bs_sorted nonl])
  have PO: "prefixOK P"
    unfolding P_def by (rule prefixOK_header [OF Hc])
  have split2: "Split (Join out newline @ [newline]) newline = P @ blocksLines bs"
    unfolding out_def P_def by (rule layout_split [OF bs_ok bs_ne nonl])
  have valid2: "validPositions (Split (Join out newline @ [newline]) newline)
                  (layoutPos (int (length P)) bs)"
    unfolding split2 by (rule layout_valid [OF PO bs_ok])
  have dist2: "distinct (map fst (layoutPos (int (length P)) bs))"
    using bs_dist by (simp add: layoutPos_names)
  have perm2: "reorderContent (Join out newline @ [newline]) testFuncPos'
                 = Some (Join out newline @ [newline])"
    if "mset testFuncPos' = mset (outputPositions ?lines testFuncPos)" for testFuncPos'
    using reorderContent_perm [OF valid2 dist2, of testFuncPos'] that run2 pos2 by simp
  have dtext: "\<exists>s e. (n, s, e) \<in> set testFuncPos
              \<and> declarationText (Split (Join out newline @ [newline]) newline) s' e'
                  = declarationText ?lines s e"
    if "(n, s', e') \<in> set (outputPositions ?lines testFuncPos)" for n s' e'
  proof -
    from that pos2 have "(n, s', e') \<in> set (layoutPos (int (length P)) bs)"
      by simp
    then obtain C D where b: "(n, C, D) \<in> set bs"
      and t: "declarationText (P @ blocksLines bs) s' e' = D"
      using layout_declarationText by blast
    from b obtain f where f: "f \<in> set fsN" "toBlock ?lines f = (n, C, D)"
      by (auto simp: bs_def)
    then have "n = name f"
      and "D = declarationText ?lines (startLine f + 1) (endLine f + 1)"
      by (simp_all add: toBlock_def declarationText_def)
    moreover have "(name f, startLine f + 1, endLine f + 1) \<in> set testFuncPos"
      using facts [OF f(1)] by (simp add: map_of_SomeD)
    ultimately show ?thesis
      using t split2 by auto
  qed
  have valid3: "validPositions (Split (Join out newline @ [newline]) newline)
                  (outputPositions ?lines testFuncPos)"
    using valid2 pos2 by simp
  have "mset (map fst (outputPositions ?lines testFuncPos)) = mset (map name fsN)"
    unfolding pos2 layoutPos_names names ..
  also have "\<dots> = mset (map name ?fs)"
    by (simp add: fsN_def)
  also have "\<dots> = mset (map fst testFuncPos)"
    by (rule createSorted_names)
  finally have names2: "mset (map fst (outputPositions ?lines testFuncPos))
      = mset (map fst testFuncPos)" .
  show ?thesis
    using run1 perm2 names2 valid3 dtext by blast
qed

text \<open>
  The positions map has distinct keys, \<^verbatim>\<open>Exec\<close> writes what the transformation computes,
  and declarations on disjoint lines that end in code have disjoint blocks.
\<close>

lemma distinct_fold_update:
  "distinct (map fst acc) \<Longrightarrow>
   distinct (map fst
     (fold (\<lambda>d testFuncPos.
             case d of
               FuncDecl n start end' \<Rightarrow>
                 if \<not> HasPrefix n ''Test'' then testFuncPos
                 else AList.update n (start, end') testFuncPos
             | GenDecl \<Rightarrow> testFuncPos)
          decls acc))"
proof (induction decls arbitrary: acc)
  case Nil
  then show ?case by simp
next
  case (Cons d decls)
  show ?case
  proof (cases d)
    case (FuncDecl n start end')
    then show ?thesis
      using Cons.prems by (auto intro!: Cons.IH simp: distinct_update)
  next
    case GenDecl
    then show ?thesis
      using Cons.prems by (auto intro!: Cons.IH)
  qed
qed

lemma distinct_buildTestFunctionPositions:
  "distinct (map fst (buildTestFunctionPositions file))"
  unfolding buildTestFunctionPositions_def by (rule distinct_fold_update) simp

lemma Exec_returns:
  assumes "ReadFile w pathInput = Inr content" and "parse content = Inr file"
    and "reorderContent content (buildTestFunctionPositions file) = Some output"
    and "writable w pathOutput"
  shows "Exec parse w pathInput pathOutput
         = (Returned None, w\<lparr>files := (files w)(pathOutput \<mapsto> output)\<rparr>)"
proof -
  have "ParseGoFile parse w pathInput = Inr (Split content newline, file)"
    using assms(1,2) by (simp add: ParseGoFile_def ParseFile_def)
  moreover obtain testFuncs nonTestLines where
    "ExtractTestFunctions (Split content newline) file = Some (testFuncs, nonTestLines)"
    and "BuildOutputContent testFuncs nonTestLines = output"
    using assms(3)
    by (auto simp: reorderContent_def ExtractTestFunctions_def split: option.splits)
  ultimately show ?thesis
    using assms(4) by (simp add: Exec_def WriteFile_def)
qed

lemma visible_in_one_block:
  assumes "validPositions lines testFuncPos" and "distinct (map fst testFuncPos)"
    and "disjointDeclarations testFuncPos" and "declarationsEndInCode lines testFuncPos"
    and f: "f \<in> set (createSortedFuncPositions testFuncPos)"
    and g: "g \<in> set (createSortedFuncPositions testFuncPos)"
    and "f \<noteq> g" and vis: "visibleIn lines f i"
  shows "\<not> visibleIn lines g i"
proof -
  note v = sorted_positions_valid [OF assms(1,2)]
  have d: "endLine f < leadingBoundary lines (startLine g)
         \<or> endLine g < leadingBoundary lines (startLine f)"
    using assms by (intro disjoint_blocks)
  have "leadingBoundary lines (startLine f) \<le> i" "i \<le> endLine f"
    using vis v(2) [OF f] by (simp_all add: visibleIn_iff inBounds_def)
  with d show ?thesis
    using v(2) [OF g] by (auto simp: visibleIn_iff inBounds_def)
qed

lemma declarationsAreCode_end:
  "declarationsAreCode lines testFuncPos \<Longrightarrow> declarationsEndInCode lines testFuncPos"
  by (auto simp: declarationsAreCode_def declarationsEndInCode_def list_all_iff)

text \<open>
  The declarations have to stand on disjoint lines. Of two test functions on one line
  both blocks show that line, and the first run writes it twice. In that output the line
  stands on the lines 3 and 5 with both declarations on either of them, the positions map
  keeps for each name the declaration that comes last, and the second run writes the line
  a third time.
\<close>

lemma declarations_on_one_line_written_twice:
  "validPositions
     (Split (Join [''package main'', [], ''func Test_b() {}; func Test_a() {}''] newline
             @ [newline]) newline)
     (buildTestFunctionPositions [FuncDecl ''Test_b'' 3 3, FuncDecl ''Test_a'' 3 3])
   \<and> declarationsAreCode
     (Split (Join [''package main'', [], ''func Test_b() {}; func Test_a() {}''] newline
             @ [newline]) newline)
     (buildTestFunctionPositions [FuncDecl ''Test_b'' 3 3, FuncDecl ''Test_a'' 3 3])
   \<and> remainderEndsInCode
     (Split (Join [''package main'', [], ''func Test_b() {}; func Test_a() {}''] newline
             @ [newline]) newline)
     (buildTestFunctionPositions [FuncDecl ''Test_b'' 3 3, FuncDecl ''Test_a'' 3 3])
   \<and> \<not> disjointDeclarations
     (buildTestFunctionPositions [FuncDecl ''Test_b'' 3 3, FuncDecl ''Test_a'' 3 3])
   \<and> reorderContent
     (Join [''package main'', [], ''func Test_b() {}; func Test_a() {}''] newline @ [newline])
     (buildTestFunctionPositions [FuncDecl ''Test_b'' 3 3, FuncDecl ''Test_a'' 3 3])
     = Some (Join [''package main'', [], ''func Test_b() {}; func Test_a() {}'', [],
                   ''func Test_b() {}; func Test_a() {}''] newline @ [newline])
   \<and> buildTestFunctionPositions
       [FuncDecl ''Test_b'' 3 3, FuncDecl ''Test_a'' 3 3,
        FuncDecl ''Test_b'' 5 5, FuncDecl ''Test_a'' 5 5]
     = [(''Test_b'', 5, 5), (''Test_a'', 5, 5)]
   \<and> reorderContent
     (Join [''package main'', [], ''func Test_b() {}; func Test_a() {}'', [],
            ''func Test_b() {}; func Test_a() {}''] newline @ [newline])
     (buildTestFunctionPositions
       [FuncDecl ''Test_b'' 3 3, FuncDecl ''Test_a'' 3 3,
        FuncDecl ''Test_b'' 5 5, FuncDecl ''Test_a'' 5 5])
     = Some (Join [''package main'', [], ''func Test_b() {}; func Test_a() {}'', [],
                   ''func Test_b() {}; func Test_a() {}'', [],
                   ''func Test_b() {}; func Test_a() {}''] newline @ [newline])"
  by code_simp

text \<open>
  C6, as the code has it. Take a file with at least one test function, whose test function
  declarations stand on disjoint lines, each of them beginning with a non-blank line and
  ending with a line that is neither blank nor a comment, and whose remainder does not
  end with a comment. The parser is a parameter; of its result on the output of the first
  run the statement assumes that it reports the same test functions, each on the lines on
  which that run has written its declaration. Then \<^verbatim>\<open>Exec\<close> succeeds, and a second
  \<^verbatim>\<open>Exec\<close> that reads the file written by the first writes the same text again. The
  lines assumed of the parser belong to the test functions of the input, one entry for
  each name; they lie inside the output and hold, for every function, the text that its
  declaration has in the input; and no line of the input is shown in two blocks, so that
  the output holds every declaration once. Both runs compute this text in whatever order
  the positions map hands out its entries. The test functions of the input need not be
  sorted.
\<close>

theorem Exec_twice:
  assumes read: "ReadFile w pathInput = Inr content"
    and parse1: "parse content = Inr file"
    and valid: "validPositions (Split content newline) (buildTestFunctionPositions file)"
    and some: "buildTestFunctionPositions file \<noteq> []"
    and disj: "disjointDeclarations (buildTestFunctionPositions file)"
    and code: "declarationsAreCode (Split content newline) (buildTestFunctionPositions file)"
    and rem: "remainderEndsInCode (Split content newline) (buildTestFunctionPositions file)"
    and parse2: "\<forall>output.
        reorderContent content (buildTestFunctionPositions file) = Some output \<longrightarrow>
        (\<exists>file'. parse output = Inr file'
           \<and> mset (buildTestFunctionPositions file')
               = mset (outputPositions (Split content newline) (buildTestFunctionPositions file)))"
    and wr1: "writable w pathOutput" and wr2: "writable w pathOutput'"
  shows "\<exists>output.
       Exec parse w pathInput pathOutput
         = (Returned None, w\<lparr>files := (files w)(pathOutput \<mapsto> output)\<rparr>)
     \<and> Exec parse (w\<lparr>files := (files w)(pathOutput \<mapsto> output)\<rparr>) pathOutput pathOutput'
         = (Returned None,
            w\<lparr>files := (files w)(pathOutput \<mapsto> output, pathOutput' \<mapsto> output)\<rparr>)
     \<and> (\<forall>testFuncPos'. mset testFuncPos' = mset (buildTestFunctionPositions file) \<longrightarrow>
            reorderContent content testFuncPos' = Some output)
     \<and> (\<forall>testFuncPos'.
            mset testFuncPos'
              = mset (outputPositions (Split content newline) (buildTestFunctionPositions file))
            \<longrightarrow> reorderContent output testFuncPos' = Some output)
     \<and> mset (map fst (outputPositions (Split content newline) (buildTestFunctionPositions file)))
           = mset (map fst (buildTestFunctionPositions file))
     \<and> validPositions (Split output newline)
          (outputPositions (Split content newline) (buildTestFunctionPositions file))
     \<and> (\<forall>(n, s', e')\<in>set (outputPositions (Split content newline)
                                (buildTestFunctionPositions file)).
            \<exists>s e. (n, s, e) \<in> set (buildTestFunctionPositions file)
              \<and> declarationText (Split output newline) s' e'
                  = declarationText (Split content newline) s e)
     \<and> (\<forall>f\<in>set (createSortedFuncPositions (buildTestFunctionPositions file)).
         \<forall>g\<in>set (createSortedFuncPositions (buildTestFunctionPositions file)). \<forall>i.
            f \<noteq> g \<and> visibleIn (Split content newline) f i
              \<longrightarrow> \<not> visibleIn (Split content newline) g i)"
proof -
  let ?lines = "Split content newline"
  let ?pos = "buildTestFunctionPositions file"
  have dist: "distinct (map fst ?pos)"
    by (rule distinct_buildTestFunctionPositions)
  obtain out1 where run1: "reorderContent content ?pos = Some out1"
    and run2: "\<And>testFuncPos'. mset testFuncPos' = mset (outputPositions ?lines ?pos) \<Longrightarrow>
                 reorderContent out1 testFuncPos' = Some out1"
    and names2: "mset (map fst (outputPositions ?lines ?pos)) = mset (map fst ?pos)"
    and valid2: "validPositions (Split out1 newline) (outputPositions ?lines ?pos)"
    and dtext: "\<forall>(n, s', e')\<in>set (outputPositions ?lines ?pos).
            \<exists>s e. (n, s, e) \<in> set ?pos
              \<and> declarationText (Split out1 newline) s' e' = declarationText ?lines s e"
    using reorderContent_twice [OF valid dist some code rem] by blast
  obtain file' where p2: "parse out1 = Inr file'"
    and m2: "mset (buildTestFunctionPositions file') = mset (outputPositions ?lines ?pos)"
    using parse2 run1 by blast
  let ?w = "w\<lparr>files := (files w)(pathOutput \<mapsto> out1)\<rparr>"
  have e1: "Exec parse w pathInput pathOutput = (Returned None, ?w)"
    using read parse1 run1 wr1 by (rule Exec_returns)
  have r2: "ReadFile ?w pathOutput = Inr out1"
    by (simp add: ReadFile_def)
  have w2: "writable ?w pathOutput'"
    using wr2 by simp
  have "Exec parse ?w pathOutput pathOutput'
         = (Returned None, ?w\<lparr>files := (files ?w)(pathOutput' \<mapsto> out1)\<rparr>)"
    using r2 p2 run2 [OF m2] w2 by (rule Exec_returns)
  then have e2: "Exec parse ?w pathOutput pathOutput'
         = (Returned None,
            w\<lparr>files := (files w)(pathOutput \<mapsto> out1, pathOutput' \<mapsto> out1)\<rparr>)"
    by simp
  have once: "\<forall>f\<in>set (createSortedFuncPositions ?pos).
         \<forall>g\<in>set (createSortedFuncPositions ?pos). \<forall>i.
            f \<noteq> g \<and> visibleIn ?lines f i \<longrightarrow> \<not> visibleIn ?lines g i"
    using visible_in_one_block [OF valid dist disj declarationsAreCode_end [OF code]]
    by blast
  have perm1: "\<forall>testFuncPos'. mset testFuncPos' = mset ?pos \<longrightarrow>
            reorderContent content testFuncPos' = Some out1"
    using reorderContent_perm [OF valid dist] run1 by simp
  have perm2: "\<forall>testFuncPos'. mset testFuncPos' = mset (outputPositions ?lines ?pos) \<longrightarrow>
            reorderContent out1 testFuncPos' = Some out1"
    using run2 by simp
  show ?thesis
    using e1 e2 perm1 perm2 names2 valid2 dtext once by blast
qed

theorem Exec_twice_witness:
  "fst (Exec (\<lambda>src.
          if src = Join [''package main'', [], ''func Test_b() {'', ''}'', [],
                         ''func helper() {'', ''}'', [], ''// about a'',
                         ''func Test_a() {'', ''}''] newline @ [newline]
          then Inr [FuncDecl ''Test_b'' 3 4, FuncDecl ''helper'' 6 7, FuncDecl ''Test_a'' 10 11]
          else if src = Join [''package main'', ''func helper() {'', ''}'', [], ''// about a'',
                              ''func Test_a() {'', ''}'', [], ''func Test_b() {'', ''}'']
                          newline @ [newline]
          then Inr [FuncDecl ''helper'' 2 3, FuncDecl ''Test_a'' 6 7, FuncDecl ''Test_b'' 9 10]
          else Inl (SyntaxError src))
        \<lparr>files = [''in.go'' \<mapsto>
                    Join [''package main'', [], ''func Test_b() {'', ''}'', [],
                          ''func helper() {'', ''}'', [], ''// about a'',
                          ''func Test_a() {'', ''}''] newline @ [newline]],
         writable = (\<lambda>p. True)\<rparr>
        ''in.go'' ''out.go'') = Returned None
   \<and> files (snd (Exec (\<lambda>src.
          if src = Join [''package main'', [], ''func Test_b() {'', ''}'', [],
                         ''func helper() {'', ''}'', [], ''// about a'',
                         ''func Test_a() {'', ''}''] newline @ [newline]
          then Inr [FuncDecl ''Test_b'' 3 4, FuncDecl ''helper'' 6 7, FuncDecl ''Test_a'' 10 11]
          else if src = Join [''package main'', ''func helper() {'', ''}'', [], ''// about a'',
                              ''func Test_a() {'', ''}'', [], ''func Test_b() {'', ''}'']
                          newline @ [newline]
          then Inr [FuncDecl ''helper'' 2 3, FuncDecl ''Test_a'' 6 7, FuncDecl ''Test_b'' 9 10]
          else Inl (SyntaxError src))
        \<lparr>files = [''in.go'' \<mapsto>
                    Join [''package main'', [], ''func Test_b() {'', ''}'', [],
                          ''func helper() {'', ''}'', [], ''// about a'',
                          ''func Test_a() {'', ''}''] newline @ [newline]],
         writable = (\<lambda>p. True)\<rparr>
        ''in.go'' ''out.go'')) ''out.go''
     = Some (Join [''package main'', ''func helper() {'', ''}'', [], ''// about a'',
                   ''func Test_a() {'', ''}'', [], ''func Test_b() {'', ''}''] newline @ [newline])
   \<and> Exec (\<lambda>src.
          if src = Join [''package main'', [], ''func Test_b() {'', ''}'', [],
                         ''func helper() {'', ''}'', [], ''// about a'',
                         ''func Test_a() {'', ''}''] newline @ [newline]
          then Inr [FuncDecl ''Test_b'' 3 4, FuncDecl ''helper'' 6 7, FuncDecl ''Test_a'' 10 11]
          else if src = Join [''package main'', ''func helper() {'', ''}'', [], ''// about a'',
                              ''func Test_a() {'', ''}'', [], ''func Test_b() {'', ''}'']
                          newline @ [newline]
          then Inr [FuncDecl ''helper'' 2 3, FuncDecl ''Test_a'' 6 7, FuncDecl ''Test_b'' 9 10]
          else Inl (SyntaxError src))
        (snd (Exec (\<lambda>src.
          if src = Join [''package main'', [], ''func Test_b() {'', ''}'', [],
                         ''func helper() {'', ''}'', [], ''// about a'',
                         ''func Test_a() {'', ''}''] newline @ [newline]
          then Inr [FuncDecl ''Test_b'' 3 4, FuncDecl ''helper'' 6 7, FuncDecl ''Test_a'' 10 11]
          else if src = Join [''package main'', ''func helper() {'', ''}'', [], ''// about a'',
                              ''func Test_a() {'', ''}'', [], ''func Test_b() {'', ''}'']
                          newline @ [newline]
          then Inr [FuncDecl ''helper'' 2 3, FuncDecl ''Test_a'' 6 7, FuncDecl ''Test_b'' 9 10]
          else Inl (SyntaxError src))
        \<lparr>files = [''in.go'' \<mapsto>
                    Join [''package main'', [], ''func Test_b() {'', ''}'', [],
                          ''func helper() {'', ''}'', [], ''// about a'',
                          ''func Test_a() {'', ''}''] newline @ [newline]],
         writable = (\<lambda>p. True)\<rparr>
        ''in.go'' ''out.go''))
        ''out.go'' ''out.go''
     = Exec (\<lambda>src.
          if src = Join [''package main'', [], ''func Test_b() {'', ''}'', [],
                         ''func helper() {'', ''}'', [], ''// about a'',
                         ''func Test_a() {'', ''}''] newline @ [newline]
          then Inr [FuncDecl ''Test_b'' 3 4, FuncDecl ''helper'' 6 7, FuncDecl ''Test_a'' 10 11]
          else if src = Join [''package main'', ''func helper() {'', ''}'', [], ''// about a'',
                              ''func Test_a() {'', ''}'', [], ''func Test_b() {'', ''}'']
                          newline @ [newline]
          then Inr [FuncDecl ''helper'' 2 3, FuncDecl ''Test_a'' 6 7, FuncDecl ''Test_b'' 9 10]
          else Inl (SyntaxError src))
        \<lparr>files = [''in.go'' \<mapsto>
                    Join [''package main'', [], ''func Test_b() {'', ''}'', [],
                          ''func helper() {'', ''}'', [], ''// about a'',
                          ''func Test_a() {'', ''}''] newline @ [newline]],
         writable = (\<lambda>p. True)\<rparr>
        ''in.go'' ''out.go''"
proof -
  let ?content = "Join [''package main'', [], ''func Test_b() {'', ''}'', [],
                         ''func helper() {'', ''}'', [], ''// about a'',
                         ''func Test_a() {'', ''}''] newline @ [newline]"
  let ?out = "Join [''package main'', ''func helper() {'', ''}'', [], ''// about a'',
                   ''func Test_a() {'', ''}'', [], ''func Test_b() {'', ''}''] newline @ [newline]"
  let ?file = "[FuncDecl ''Test_b'' 3 4, FuncDecl ''helper'' 6 7, FuncDecl ''Test_a'' 10 11]"
  let ?file' = "[FuncDecl ''helper'' 2 3, FuncDecl ''Test_a'' 6 7, FuncDecl ''Test_b'' 9 10]"
  let ?parse = "\<lambda>src. if src = ?content then Inr ?file
                      else if src = ?out then Inr ?file' else Inl (SyntaxError src)"
  let ?w = "\<lparr>files = [''in.go'' \<mapsto> ?content], writable = (\<lambda>p. True)\<rparr>"
  have read: "ReadFile ?w ''in.go'' = Inr ?content"
    by (simp add: ReadFile_def)
  have parse1: "?parse ?content = Inr ?file"
    by simp
  have h: "validPositions (Split ?content newline) (buildTestFunctionPositions ?file)"
    "buildTestFunctionPositions ?file \<noteq> []"
    "disjointDeclarations (buildTestFunctionPositions ?file)"
    "declarationsAreCode (Split ?content newline) (buildTestFunctionPositions ?file)"
    "remainderEndsInCode (Split ?content newline) (buildTestFunctionPositions ?file)"
    by code_simp+
  have run1: "reorderContent ?content (buildTestFunctionPositions ?file) = Some ?out"
    by code_simp
  have p2: "?parse ?out = Inr ?file'"
    by code_simp
  have m2: "buildTestFunctionPositions ?file'
      = outputPositions (Split ?content newline) (buildTestFunctionPositions ?file)"
    by code_simp
  have parse2: "\<forall>output.
        reorderContent ?content (buildTestFunctionPositions ?file) = Some output \<longrightarrow>
        (\<exists>file'. ?parse output = Inr file'
           \<and> mset (buildTestFunctionPositions file')
               = mset (outputPositions (Split ?content newline) (buildTestFunctionPositions ?file)))"
    unfolding run1 using p2 m2 by (metis option.inject)
  have wr: "writable ?w ''out.go''"
    by simp
  from Exec_twice [of ?w "''in.go''" ?content ?parse ?file "''out.go''" "''out.go''",
      OF read parse1 h parse2 wr wr]
  obtain out1 where e1: "Exec ?parse ?w ''in.go'' ''out.go''
         = (Returned None, ?w\<lparr>files := (files ?w)(''out.go'' \<mapsto> out1)\<rparr>)"
    and e2: "Exec ?parse (?w\<lparr>files := (files ?w)(''out.go'' \<mapsto> out1)\<rparr>) ''out.go'' ''out.go''
         = (Returned None,
            ?w\<lparr>files := (files ?w)(''out.go'' \<mapsto> out1, ''out.go'' \<mapsto> out1)\<rparr>)"
    by blast
  have "Exec ?parse ?w ''in.go'' ''out.go''
         = (Returned None, ?w\<lparr>files := (files ?w)(''out.go'' \<mapsto> ?out)\<rparr>)"
    using read parse1 run1 wr by (rule Exec_returns)
  with e1 have "(files ?w)(''out.go'' \<mapsto> out1) = (files ?w)(''out.go'' \<mapsto> ?out)"
    by simp
  then have o: "out1 = ?out"
    by (metis map_upd_eqD1)
  show ?thesis
    using e1 e2 unfolding o by simp
qed

text \<open>
  C6, as the specification has it, fails on a file without test functions, which is
  sorted and has no comment at all: every run appends one more newline, so that the
  second output differs from the first.
\<close>

theorem Exec_twice_counterexample:
  "buildTestFunctionPositions [FuncDecl ''helper'' 3 3] = []
   \<and> fst (Exec (\<lambda>src. Inr [FuncDecl ''helper'' 3 3])
        \<lparr>files = [''a.go'' \<mapsto> Join [''package main'', [], ''func helper() {}''] newline
                                   @ [newline]],
         writable = (\<lambda>p. True)\<rparr>
        ''a.go'' ''b.go'') = Returned None
   \<and> files (snd (Exec (\<lambda>src. Inr [FuncDecl ''helper'' 3 3])
        \<lparr>files = [''a.go'' \<mapsto> Join [''package main'', [], ''func helper() {}''] newline
                                   @ [newline]],
         writable = (\<lambda>p. True)\<rparr>
        ''a.go'' ''b.go'')) ''b.go''
       = Some (Join [''package main'', [], ''func helper() {}''] newline @ [newline, newline])
   \<and> fst (Exec (\<lambda>src. Inr [FuncDecl ''helper'' 3 3])
        (snd (Exec (\<lambda>src. Inr [FuncDecl ''helper'' 3 3])
           \<lparr>files = [''a.go'' \<mapsto> Join [''package main'', [], ''func helper() {}''] newline
                                      @ [newline]],
            writable = (\<lambda>p. True)\<rparr>
           ''a.go'' ''b.go''))
        ''b.go'' ''c.go'') = Returned None
   \<and> files (snd (Exec (\<lambda>src. Inr [FuncDecl ''helper'' 3 3])
        (snd (Exec (\<lambda>src. Inr [FuncDecl ''helper'' 3 3])
           \<lparr>files = [''a.go'' \<mapsto> Join [''package main'', [], ''func helper() {}''] newline
                                      @ [newline]],
            writable = (\<lambda>p. True)\<rparr>
           ''a.go'' ''b.go''))
        ''b.go'' ''c.go'')) ''c.go''
       = Some (Join [''package main'', [], ''func helper() {}''] newline
               @ [newline, newline, newline])"
  by code_simp

end
